theory Spec2Isabelle
  imports Main "HOL-Library.Multiset"
begin

text \<open>
  A model of the monthly schedule calendar of the anime tracker's frontend: the
  \<^verbatim>\<open>MonthlySchedule\<close> component in its latest revision, the one with
  \<^verbatim>\<open>formatLocalDateKey\<close>, the loading progress and the default selection. The model covers
  the calendar grid (\<^verbatim>\<open>calendarDays\<close>), the week offsets to fetch (\<^verbatim>\<open>weeksToFetch\<close>), and
  the load of a month (\<^verbatim>\<open>loadMonthSchedule\<close>): the aggregation of the week payloads into the
  day index and the choice of the active day.
\<close>

section \<open>Time values and the civil calendar\<close>

text \<open>
  The monthly schedule component works on JavaScript \<^verbatim>\<open>Date\<close> objects. A date is a time
  value: an integer number of milliseconds since 1970-01-01T00:00:00Z. The calendar
  functions below follow the definitions of the ECMAScript language specification
  (Day, TimeWithinDay, DaysInYear, DayFromYear, YearFromTime, MonthFromTime,
  DateFromTime, WeekDay, MakeDay), stated on day numbers. \<open>YearFromDay n\<close> is "the largest
  year whose first day is not after \<open>n\<close>"; it is computed by a search upward from a lower
  estimate, and \<open>YearFromDay_bounds\<close> and \<open>YearFromDay_eqI\<close> show that the search returns
  exactly that year.
\<close>

definition msPerDay :: int where
  "msPerDay = 86400000"

definition Day :: "int \<Rightarrow> int" where
  "Day t = t div msPerDay"

definition TimeWithinDay :: "int \<Rightarrow> int" where
  "TimeWithinDay t = t mod msPerDay"

lemma div_mod_unique:
  fixes q r k :: int
  assumes "0 \<le> r" "r < k"
  shows "(q * k + r) div k = q" and "(q * k + r) mod k = r"
  using assms by (simp_all add: div_pos_pos_trivial mod_pos_pos_trivial)

lemma div_step: 
  fixes a k :: int
  assumes "0 < k"
  shows "(a + 1) div k = a div k + (if (a + 1) mod k = 0 then 1 else 0)"
proof -
  define q where "q = a div k"
  define r where "r = a mod k"
  have a: "a = q * k + r" by (simp add: q_def r_def)
  have b: "0 \<le> r" "r < k" using assms by (simp_all add: r_def)
  show ?thesis
  proof (cases "r = k - 1")
    case True
    have e: "a + 1 = (q + 1) * k + 0" using a True by (simp add: algebra_simps)
    have "(a + 1) div k = q + 1" "(a + 1) mod k = 0"
      unfolding e using assms by (rule div_mod_unique[OF order_refl], rule div_mod_unique[OF order_refl])
    then show ?thesis by (simp add: q_def)
  next
    case False
    then have lt: "0 \<le> r + 1" "r + 1 < k" using b by linarith+
    have e: "a + 1 = q * k + (r + 1)" using a by simp
    have "(a + 1) div k = q" "(a + 1) mod k = r + 1"
      unfolding e using lt by (rule div_mod_unique, rule div_mod_unique)
    then show ?thesis using b by (simp add: q_def)
  qed
qed

definition isLeapYear :: "int \<Rightarrow> bool" where
  "isLeapYear y = (y mod 4 = 0 \<and> (y mod 100 \<noteq> 0 \<or> y mod 400 = 0))"

definition DaysInYear :: "int \<Rightarrow> int" where
  "DaysInYear y = (if isLeapYear y then 366 else 365)"

definition DayFromYear :: "int \<Rightarrow> int" where
  "DayFromYear y = 365 * (y - 1970) + (y - 1969) div 4 - (y - 1901) div 100 + (y - 1601) div 400"

lemma mod_shift: "(y - c * k) mod k = (y::int) mod k"
  by (metis mod_diff_eq mod_mult_self2_is_0 diff_zero mod_mod_trivial)

lemma leap_count:
  assumes "R \<Longrightarrow> Q" "Q \<Longrightarrow> P"
  shows "(if P \<and> (\<not> Q \<or> R) then 366 else 365) =
    (365::int) + (if P then 1 else 0) - (if Q then 1 else 0) + (if R then 1 else 0)"
  using assms by (cases P; cases Q; cases R; simp)

lemma DayFromYear_Suc: "DayFromYear (y + 1) = DayFromYear y + DaysInYear y"
proof -
  define A where "A = (y - 1969) div 4"
  define B where "B = (y - 1901) div 100"
  define C where "C = (y - 1601) div 400"
  define P where "P = (y mod 4 = 0)"
  define Q where "Q = (y mod 100 = 0)"
  define R where "R = (y mod 400 = 0)"
  have m4: "(y - 1969 + 1) mod 4 = y mod 4"
    using mod_shift[of y 492 4] by simp
  have m100: "(y - 1901 + 1) mod 100 = y mod 100"
    using mod_shift[of y 19 100] by simp
  have m400: "(y - 1601 + 1) mod 400 = y mod 400"
    using mod_shift[of y 4 400] by simp
  have s4: "(y + 1 - 1969) div 4 = A + (if P then 1 else 0)"
    using div_step[of 4 "y - 1969"] unfolding m4 A_def P_def by (simp add: algebra_simps)
  have s100: "(y + 1 - 1901) div 100 = B + (if Q then 1 else 0)"
    using div_step[of 100 "y - 1901"] unfolding m100 B_def Q_def by (simp add: algebra_simps)
  have s400: "(y + 1 - 1601) div 400 = C + (if R then 1 else 0)"
    using div_step[of 400 "y - 1601"] unfolding m400 C_def R_def by (simp add: algebra_simps)
  have d: "R \<Longrightarrow> Q" "Q \<Longrightarrow> P"
  proof -
    have "(100::int) dvd 400" "(4::int) dvd 100" by simp_all
    then show "R \<Longrightarrow> Q" "Q \<Longrightarrow> P" unfolding P_def Q_def R_def
      by (meson dvd_trans mod_eq_0_iff_dvd)+
  qed
  have diy: "DaysInYear y = 365 + (if P then 1 else 0) - (if Q then 1 else 0) + (if R then 1 else 0)"
    unfolding DaysInYear_def isLeapYear_def P_def[symmetric] Q_def[symmetric] R_def[symmetric]
    using d by (rule leap_count)
  have "DayFromYear (y + 1) = 365 * (y + 1 - 1970) + (A + (if P then 1 else 0))
      - (B + (if Q then 1 else 0)) + (C + (if R then 1 else 0))"
    unfolding DayFromYear_def s4 s100 s400 ..
  moreover have "DayFromYear y = 365 * (y - 1970) + A - B + C"
    unfolding DayFromYear_def A_def B_def C_def ..
  ultimately show ?thesis unfolding diy by (simp only: algebra_simps)
qed

lemma DayFromYear_less: "DayFromYear y < DayFromYear (y + 1)"
  by (simp add: DayFromYear_Suc DaysInYear_def)


lemma DayFromYear_1970: "DayFromYear 1970 = 0"
  by (simp add: DayFromYear_def)

lemma DaysInYear_bounds: "365 \<le> DaysInYear y" "DaysInYear y \<le> 366"
  by (simp_all add: DaysInYear_def)

lemma DayFromYear_upper: "0 \<le> k \<Longrightarrow> DayFromYear (1970 + k) \<le> 366 * k"
proof (induction k rule: int_ge_induct)
  case base
  show ?case by (simp add: DayFromYear_1970)
next
  case (step i)
  have "DayFromYear (1970 + (i + 1)) = DayFromYear (1970 + i) + DaysInYear (1970 + i)"
    using DayFromYear_Suc[of "1970 + i"] by (simp add: add.assoc)
  with step DaysInYear_bounds(2)[of "1970 + i"] show ?case by simp
qed

lemma DayFromYear_lower: "k \<le> 0 \<Longrightarrow> DayFromYear (1970 + k) \<le> 365 * k"
proof (induction k rule: int_le_induct)
  case base
  show ?case by (simp add: DayFromYear_1970)
next
  case (step i)
  have "DayFromYear (1970 + i) = DayFromYear (1970 + (i - 1)) + DaysInYear (1970 + (i - 1))"
    using DayFromYear_Suc[of "1970 + (i - 1)"] by simp
  with step DaysInYear_bounds(1)[of "1970 + (i - 1)"] show ?case by simp
qed


function year_search :: "int \<Rightarrow> int \<Rightarrow> int" where
  "year_search y n = (if DayFromYear (y + 1) \<le> n then year_search (y + 1) n else y)"
  by pat_completeness auto
termination
proof (relation "measure (\<lambda>(y, n). nat (n + 1 - DayFromYear (y + 1)))")
  show "wf (measure (\<lambda>(y, n). nat (n + 1 - DayFromYear (y + 1))))" by simp
next
  fix y n :: int
  assume "DayFromYear (y + 1) \<le> n"
  moreover have "DayFromYear (y + 1) < DayFromYear (y + 1 + 1)" by (rule DayFromYear_less)
  ultimately show "((y + 1, n), (y, n)) \<in> measure (\<lambda>(y, n). nat (n + 1 - DayFromYear (y + 1)))"
    by simp
qed

declare year_search.simps [simp del]

definition YearFromDay :: "int \<Rightarrow> int" where
  "YearFromDay n = year_search (1970 + (if 0 \<le> n then n div 366 else n div 365)) n"

lemma year_search_bounds:
  "DayFromYear y \<le> n \<Longrightarrow>
     DayFromYear (year_search y n) \<le> n \<and> n < DayFromYear (year_search y n + 1)"
proof (induction y n rule: year_search.induct)
  case (1 y n)
  show ?case
  proof (cases "DayFromYear (y + 1) \<le> n")
    case True
    then show ?thesis using "1.IH" by (subst (1 2) year_search.simps) simp
  next
    case False
    then show ?thesis using "1.prems" by (subst (1 2) year_search.simps) simp
  qed
qed

lemma mult_div_le: "0 < k \<Longrightarrow> k * (n div k) \<le> (n::int)"
  using mult_div_mod_eq[of k n] pos_mod_sign[of k n] by linarith

lemma year_estimate: "DayFromYear (1970 + (if 0 \<le> n then n div 366 else n div 365)) \<le> n"
proof (cases "0 \<le> n")
  case True
  then have "0 \<le> n div 366" by simp
  from DayFromYear_upper[OF this] have "DayFromYear (1970 + n div 366) \<le> 366 * (n div 366)" .
  also have "\<dots> \<le> n" by (rule mult_div_le) simp
  finally show ?thesis using True by simp
next
  case False
  then have "n div 365 \<le> 0" using div_neg_pos_less0[of n 365] by simp
  from DayFromYear_lower[OF this] have "DayFromYear (1970 + n div 365) \<le> 365 * (n div 365)" .
  also have "\<dots> \<le> n" by (rule mult_div_le) simp
  finally show ?thesis using False by simp
qed

lemma YearFromDay_bounds:
  "DayFromYear (YearFromDay n) \<le> n" "n < DayFromYear (YearFromDay n + 1)"
  using year_search_bounds[OF year_estimate[of n]] by (simp_all add: YearFromDay_def)



definition DayWithinYear :: "int \<Rightarrow> int" where
  "DayWithinYear n = n - DayFromYear (YearFromDay n)"

definition monthStart :: "bool \<Rightarrow> int \<Rightarrow> int" where
  "monthStart leap m = (let l = (if leap then 1 else 0) in
     if m \<le> 0 then 0 else if m = 1 then 31 else if m = 2 then 59 + l
     else if m = 3 then 90 + l else if m = 4 then 120 + l else if m = 5 then 151 + l
     else if m = 6 then 181 + l else if m = 7 then 212 + l else if m = 8 then 243 + l
     else if m = 9 then 273 + l else if m = 10 then 304 + l else if m = 11 then 334 + l
     else 365 + l)"

definition MonthFromDay :: "int \<Rightarrow> int" where
  "MonthFromDay n = (let d = DayWithinYear n; L = isLeapYear (YearFromDay n) in
     if d < monthStart L 1 then 0 else if d < monthStart L 2 then 1
     else if d < monthStart L 3 then 2 else if d < monthStart L 4 then 3
     else if d < monthStart L 5 then 4 else if d < monthStart L 6 then 5
     else if d < monthStart L 7 then 6 else if d < monthStart L 8 then 7
     else if d < monthStart L 9 then 8 else if d < monthStart L 10 then 9
     else if d < monthStart L 11 then 10 else 11)"

definition DateFromDay :: "int \<Rightarrow> int" where
  "DateFromDay n =
     DayWithinYear n - monthStart (isLeapYear (YearFromDay n)) (MonthFromDay n) + 1"

definition WeekDay :: "int \<Rightarrow> int" where
  "WeekDay n = (n + 4) mod 7"

definition MakeDay :: "int \<Rightarrow> int \<Rightarrow> int \<Rightarrow> int" where
  "MakeDay year month date = (let ym = year + month div 12; mn = month mod 12 in
     DayFromYear ym + monthStart (isLeapYear ym) mn + date - 1)"

definition daysInMonth :: "bool \<Rightarrow> int \<Rightarrow> int" where
  "daysInMonth leap m = monthStart leap (m + 1) - monthStart leap m"

lemma DayWithinYear_bounds:
  "0 \<le> DayWithinYear n" "DayWithinYear n < DaysInYear (YearFromDay n)"
  using YearFromDay_bounds[of n] DayFromYear_Suc[of "YearFromDay n"]
  by (simp_all add: DayWithinYear_def)

lemma month_cases:
  fixes m :: int
  assumes "0 \<le> m" "m \<le> 11"
  obtains "m = 0" | "m = 1" | "m = 2" | "m = 3" | "m = 4" | "m = 5" | "m = 6"
    | "m = 7" | "m = 8" | "m = 9" | "m = 10" | "m = 11"
proof -
  have "m = 0 \<or> m = 1 \<or> m = 2 \<or> m = 3 \<or> m = 4 \<or> m = 5 \<or> m = 6
      \<or> m = 7 \<or> m = 8 \<or> m = 9 \<or> m = 10 \<or> m = 11"
    using assms by arith
  then show thesis using that by blast
qed

lemma MonthFromDay_bounds: "0 \<le> MonthFromDay n" "MonthFromDay n \<le> 11"
  by (simp_all add: MonthFromDay_def Let_def)




lemma daysInMonth_bounds:
  "0 \<le> m \<Longrightarrow> m \<le> 11 \<Longrightarrow> 28 \<le> daysInMonth L m \<and> daysInMonth L m \<le> 31"
  by (erule (1) month_cases) (simp_all add: monthStart_def daysInMonth_def)

lemma MonthFromDay_window:
  "monthStart (isLeapYear (YearFromDay n)) (MonthFromDay n) \<le> DayWithinYear n"
  "DayWithinYear n < monthStart (isLeapYear (YearFromDay n)) (MonthFromDay n + 1)"
proof -
  define d where "d = DayWithinYear n"
  define L where "L = isLeapYear (YearFromDay n)"
  have b: "0 \<le> d" "d < (if L then 366 else 365)"
    using DayWithinYear_bounds[of n] by (simp_all add: d_def L_def DaysInYear_def)
  have "monthStart L (MonthFromDay n) \<le> d \<and> d < monthStart L (MonthFromDay n + 1)"
    unfolding MonthFromDay_def Let_def d_def[symmetric] L_def[symmetric]
    using b by (cases L) (simp_all add: monthStart_def)
  then show "monthStart (isLeapYear (YearFromDay n)) (MonthFromDay n) \<le> DayWithinYear n"
    and "DayWithinYear n < monthStart (isLeapYear (YearFromDay n)) (MonthFromDay n + 1)"
    by (simp_all add: d_def L_def)
qed

lemma DateFromDay_bounds:
  "1 \<le> DateFromDay n"
  "DateFromDay n \<le> daysInMonth (isLeapYear (YearFromDay n)) (MonthFromDay n)"
  using MonthFromDay_window[of n] by (simp_all add: DateFromDay_def daysInMonth_def)

lemma month_div_mod: "0 \<le> m \<Longrightarrow> m \<le> 11 \<Longrightarrow> m div 12 = 0 \<and> m mod 12 = (m::int)"
  by (simp add: div_pos_pos_trivial mod_pos_pos_trivial)

lemma MakeDay_fields: "MakeDay (YearFromDay n) (MonthFromDay n) (DateFromDay n + k) = n + k"
  using month_div_mod[OF MonthFromDay_bounds, of n]
  by (simp add: MakeDay_def DateFromDay_def DayWithinYear_def)




section \<open>The Date operations used by the component\<close>

text \<open>
  Local time is UTC plus the offset \<open>tz\<close> (milliseconds east of Greenwich). The offset is a
  parameter and is constant: a zone without daylight-saving transitions. \<open>newDate\<close> is
  \<^verbatim>\<open>new Date(year, month, date)\<close>, including the constructor's rule that a year in 0..99
  means 1900 + year; \<open>setDate\<close> is \<^verbatim>\<open>Date.prototype.setDate\<close>, \<open>setHours0\<close> is
  \<^verbatim>\<open>setHours(0, 0, 0, 0)\<close>. Time values are unbounded integers: the range limit of
  \<^verbatim>\<open>Date\<close> (about 273,000 years either side of 1970) is not modelled.
\<close>

type_synonym Date = int

definition LocalTime :: "int \<Rightarrow> Date \<Rightarrow> int" where
  "LocalTime tz t = t + tz"

definition UTC :: "int \<Rightarrow> int \<Rightarrow> Date" where
  "UTC tz t = t - tz"

definition getFullYear :: "int \<Rightarrow> Date \<Rightarrow> int" where
  "getFullYear tz d = YearFromDay (Day (LocalTime tz d))"

definition getMonth :: "int \<Rightarrow> Date \<Rightarrow> int" where
  "getMonth tz d = MonthFromDay (Day (LocalTime tz d))"

definition getDate :: "int \<Rightarrow> Date \<Rightarrow> int" where
  "getDate tz d = DateFromDay (Day (LocalTime tz d))"

definition getDay :: "int \<Rightarrow> Date \<Rightarrow> int" where
  "getDay tz d = WeekDay (Day (LocalTime tz d))"

definition newDate :: "int \<Rightarrow> int \<Rightarrow> int \<Rightarrow> int \<Rightarrow> Date" where
  "newDate tz year month date =
     (let yr = (if 0 \<le> year \<and> year \<le> 99 then 1900 + year else year)
      in UTC tz (MakeDay yr month date * msPerDay))"

definition setDate :: "int \<Rightarrow> Date \<Rightarrow> int \<Rightarrow> Date" where
  "setDate tz d dt =
     (let t = LocalTime tz d
      in UTC tz (MakeDay (YearFromDay (Day t)) (MonthFromDay (Day t)) dt * msPerDay
                 + TimeWithinDay t))"

definition setHours0 :: "int \<Rightarrow> Date \<Rightarrow> Date" where
  "setHours0 tz d = UTC tz (Day (LocalTime tz d) * msPerDay)"

lemma setDate_getDate: "setDate tz d (getDate tz d + k) = d + k * msPerDay"
proof -
  have "Day (LocalTime tz d) * msPerDay + TimeWithinDay (LocalTime tz d) = LocalTime tz d"
    by (simp add: Day_def TimeWithinDay_def)
  then show ?thesis
    unfolding setDate_def getDate_def Let_def MakeDay_fields UTC_def
    by (simp add: LocalTime_def algebra_simps)
qed

section \<open>Week-window planner\<close>

text \<open>
  \<open>calendarDays\<close> and \<open>weeksToFetch\<close> are the two memoised values of the component.
  \<open>days_loop\<close> is the \<^verbatim>\<open>while (current <= endDate)\<close> loop of \<open>calendarDays\<close>; it terminates
  because \<^verbatim>\<open>current.setDate(current.getDate() + 1)\<close> advances \<open>current\<close> by one day.
  \<open>Math_round_div a b\<close> is \<^verbatim>\<open>Math.round(a / b)\<close> for positive \<open>b\<close> (round half up).
  \<^verbatim>\<open>calendarDays[0]\<close> of an empty array is \<^verbatim>\<open>undefined\<close>, on which \<^verbatim>\<open>getDay()\<close> throws:
  \<open>weeksToFetch\<close> returns \<open>None\<close> there.
\<close>

function days_loop :: "int \<Rightarrow> Date \<Rightarrow> Date \<Rightarrow> Date list" where
  "days_loop tz current endDate =
     (if current \<le> endDate
      then current # days_loop tz (setDate tz current (getDate tz current + 1)) endDate
      else [])"
  by pat_completeness auto
termination
  by (relation "measure (\<lambda>(tz, c, e). nat (e - c + 1))")
     (simp_all add: setDate_getDate msPerDay_def)

declare days_loop.simps [simp del]

definition calendarDays :: "int \<Rightarrow> Date \<Rightarrow> Date list" where
  "calendarDays tz currentDate =
     (let year = getFullYear tz currentDate;
          month = getMonth tz currentDate;
          firstDay = newDate tz year month 1;
          lastDay = newDate tz year (month + 1) 0;
          startDate = setDate tz firstDay (getDate tz firstDay - getDay tz firstDay);
          endDate = setDate tz lastDay (getDate tz lastDay + (6 - getDay tz lastDay))
      in days_loop tz startDate endDate)"

definition msPerWeek :: int where
  "msPerWeek = 7 * 24 * 60 * 60 * 1000"

definition Math_round_div :: "int \<Rightarrow> int \<Rightarrow> int" where
  "Math_round_div a b = (2 * a + b) div (2 * b)"

definition weeksToFetch :: "int \<Rightarrow> Date \<Rightarrow> Date list \<Rightarrow> int list option" where
  "weeksToFetch tz now days =
     (let today = setHours0 tz now;
          dayOfWeek = getDay tz today;
          daysToMonday = (if dayOfWeek = 0 then - 6 else 1 - dayOfWeek);
          currentMonday = setDate tz today (getDate tz today + daysToMonday)
      in case days of
           [] \<Rightarrow> None
         | firstCalendarDay # _ \<Rightarrow>
             (let firstDayOfWeek = getDay tz firstCalendarDay;
                  daysToFirstMonday = (if firstDayOfWeek = 0 then - 6 else 1 - firstDayOfWeek);
                  firstWeekMonday =
                    setDate tz firstCalendarDay (getDate tz firstCalendarDay + daysToFirstMonday);
                  startOffset = Math_round_div (firstWeekMonday - currentMonday) msPerWeek
              in Some (map (\<lambda>i. startOffset + int i) [0..<6])))"


lemma Day_local_midnight: "Day (LocalTime tz (UTC tz (n * msPerDay))) = n"
  by (simp add: Day_def LocalTime_def UTC_def msPerDay_def)


lemma days_loop_eq:
  "e = s + k * msPerDay \<Longrightarrow>
     days_loop tz s e = map (\<lambda>i. s + int i * msPerDay) [0..<nat (k + 1)]"
proof (induction "nat (k + 1)" arbitrary: s k)
  case 0
  then have "k < 0" by simp
  then have "\<not> s \<le> e" using 0(2) by (simp add: msPerDay_def)
  then show ?case using 0 by (subst days_loop.simps) simp
next
  case (Suc n)
  then have k: "0 \<le> k" "n = nat ((k - 1) + 1)" by simp_all
  have le: "s \<le> e" using k(1) Suc.prems by (simp add: msPerDay_def)
  have e: "e = (s + 1 * msPerDay) + (k - 1) * msPerDay"
    using Suc.prems by (simp add: algebra_simps)
  have "days_loop tz (s + 1 * msPerDay) e =
      map (\<lambda>i. (s + 1 * msPerDay) + int i * msPerDay) [0..<nat ((k - 1) + 1)]"
    by (rule Suc.hyps(1)[OF k(2) e])
  also have "\<dots> = map (\<lambda>i. s + int (Suc i) * msPerDay) [0..<n]"
    using k(2) by (simp add: algebra_simps)
  finally have rec: "days_loop tz (s + 1 * msPerDay) e =
      map (\<lambda>i. s + int (Suc i) * msPerDay) [0..<n]" .
  have "days_loop tz s e = s # days_loop tz (s + 1 * msPerDay) e"
    using le by (subst days_loop.simps) (simp only: setDate_getDate if_True)
  also have "\<dots> = s # map (\<lambda>i. s + int (Suc i) * msPerDay) [0..<n]" by (simp only: rec)
  also have "\<dots> = map (\<lambda>i. s + int i * msPerDay) [0..<Suc n]"
    by (simp add: upt_conv_Cons map_Suc_upt[symmetric] del: upt_Suc)
  finally show ?case using Suc.hyps(2) by simp
qed


lemma MakeDay_next_month:
  assumes "0 \<le> m" "m \<le> 11"
  shows "MakeDay y (m + 1) 0 = MakeDay y m 1 + daysInMonth (isLeapYear y) m - 1"
proof (cases "m = 11")
  case True
  have "MakeDay y 12 0 = DayFromYear (y + 1) - 1"
    by (simp add: MakeDay_def monthStart_def)
  also have "\<dots> = DayFromYear y + monthStart (isLeapYear y) 12 - 1"
    by (simp add: DayFromYear_Suc monthStart_def DaysInYear_def)
  finally show ?thesis using True
    by (simp add: MakeDay_def daysInMonth_def)
next
  case False
  with assms have "0 \<le> m + 1" "m + 1 \<le> 11" by simp_all
  from month_div_mod[OF this] month_div_mod[OF assms] show ?thesis
    by (simp add: MakeDay_def daysInMonth_def)
qed

lemma getMonth_bounds: "0 \<le> getMonth tz d" "getMonth tz d \<le> 11"
  by (simp_all add: getMonth_def MonthFromDay_bounds)


lemma WeekDay_shift: "WeekDay (n + k) = (WeekDay n + k) mod 7"
proof -
  have "n + k + 4 = (n + 4) + k" by simp
  then show ?thesis unfolding WeekDay_def by (simp only: mod_add_left_eq)
qed

lemma week_count:
  fixes a len :: int
  assumes "0 \<le> a" "a \<le> 6" "28 \<le> len" "len \<le> 31"
  defines "N \<equiv> len + (6 - (a + (len - 1)) mod 7) + a"
  shows "N = 28 \<or> N = 35 \<or> N = 42"
proof -
  have "len = 28 \<or> len = 29 \<or> len = 30 \<or> len = 31" using assms(3,4) by arith
  moreover have "a = 0 \<or> a = 1 \<or> a = 2 \<or> a = 3 \<or> a = 4 \<or> a = 5 \<or> a = 6"
    using assms(1,2) by arith
  ultimately show ?thesis unfolding N_def by (elim disjE) simp_all
qed


definition constructorYear :: "int \<Rightarrow> int" where
  "constructorYear year = (if 0 \<le> year \<and> year \<le> 99 then 1900 + year else year)"

definition firstDayNo :: "int \<Rightarrow> Date \<Rightarrow> int" where
  "firstDayNo tz cur = MakeDay (constructorYear (getFullYear tz cur)) (getMonth tz cur) 1"

definition monthLength :: "int \<Rightarrow> Date \<Rightarrow> int" where
  "monthLength tz cur =
     daysInMonth (isLeapYear (constructorYear (getFullYear tz cur))) (getMonth tz cur)"

definition gridStartNo :: "int \<Rightarrow> Date \<Rightarrow> int" where
  "gridStartNo tz cur = firstDayNo tz cur - WeekDay (firstDayNo tz cur)"

definition gridCells :: "int \<Rightarrow> Date \<Rightarrow> int" where
  "gridCells tz cur = monthLength tz cur
     + (6 - WeekDay (firstDayNo tz cur + monthLength tz cur - 1)) + WeekDay (firstDayNo tz cur)"

lemma newDate_first: "newDate tz (getFullYear tz cur) (getMonth tz cur) 1
    = UTC tz (firstDayNo tz cur * msPerDay)"
  by (simp add: newDate_def firstDayNo_def constructorYear_def)

lemma newDate_last: "newDate tz (getFullYear tz cur) (getMonth tz cur + 1) 0
    = UTC tz ((firstDayNo tz cur + monthLength tz cur - 1) * msPerDay)"
proof -
  have "MakeDay (constructorYear (getFullYear tz cur)) (getMonth tz cur + 1) 0
      = firstDayNo tz cur + monthLength tz cur - 1"
    unfolding firstDayNo_def monthLength_def
    by (rule MakeDay_next_month) (rule getMonth_bounds)+
  then show ?thesis by (simp add: newDate_def constructorYear_def)
qed

lemma getDay_midnight: "getDay tz (UTC tz (n * msPerDay)) = WeekDay n"
  by (simp add: getDay_def Day_local_midnight)

lemma monthLength_bounds: "28 \<le> monthLength tz cur" "monthLength tz cur \<le> 31"
proof -
  have "28 \<le> monthLength tz cur \<and> monthLength tz cur \<le> 31"
    unfolding monthLength_def by (rule daysInMonth_bounds) (rule getMonth_bounds)+
  then show "28 \<le> monthLength tz cur" "monthLength tz cur \<le> 31" by simp_all
qed

lemma WeekDay_bounds: "0 \<le> WeekDay n" "WeekDay n \<le> 6"
  by (simp_all add: WeekDay_def)

lemma gridCells_values:
  "gridCells tz cur = 28 \<or> gridCells tz cur = 35 \<or> gridCells tz cur = 42"
proof -
  have "WeekDay (firstDayNo tz cur + monthLength tz cur - 1)
      = (WeekDay (firstDayNo tz cur) + (monthLength tz cur - 1)) mod 7"
    using WeekDay_shift[of "firstDayNo tz cur" "monthLength tz cur - 1"]
    by (simp add: algebra_simps)
  moreover have "monthLength tz cur
      + (6 - (WeekDay (firstDayNo tz cur) + (monthLength tz cur - 1)) mod 7)
      + WeekDay (firstDayNo tz cur) \<in> {28, 35, 42}"
    using week_count[OF WeekDay_bounds monthLength_bounds] by simp
  ultimately show ?thesis
    unfolding gridCells_def by simp
qed

lemma calendarDays_eq:
  "calendarDays tz cur =
     map (\<lambda>i. UTC tz (gridStartNo tz cur * msPerDay) + int i * msPerDay)
       [0..<nat (gridCells tz cur)]"
proof -
  define F where "F = firstDayNo tz cur"
  define len where "len = monthLength tz cur"
  define firstDay where "firstDay = UTC tz (F * msPerDay)"
  define lastDay where "lastDay = UTC tz ((F + len - 1) * msPerDay)"
  have gf: "getDay tz firstDay = WeekDay F"
    unfolding firstDay_def by (rule getDay_midnight)
  have gl: "getDay tz lastDay = WeekDay (F + len - 1)"
    unfolding lastDay_def by (rule getDay_midnight)
  have "setDate tz firstDay (getDate tz firstDay - getDay tz firstDay)
      = setDate tz firstDay (getDate tz firstDay + (- WeekDay F))"
    by (simp add: gf)
  also have "\<dots> = firstDay + (- WeekDay F) * msPerDay"
    by (rule setDate_getDate)
  also have "\<dots> = UTC tz (gridStartNo tz cur * msPerDay)"
    by (simp add: firstDay_def UTC_def gridStartNo_def F_def algebra_simps)
  finally have s: "setDate tz firstDay (getDate tz firstDay - getDay tz firstDay)
      = UTC tz (gridStartNo tz cur * msPerDay)" .
  have "setDate tz lastDay (getDate tz lastDay + (6 - getDay tz lastDay))
      = lastDay + (6 - getDay tz lastDay) * msPerDay"
    by (rule setDate_getDate)
  also have "\<dots> = UTC tz (gridStartNo tz cur * msPerDay) + (gridCells tz cur - 1) * msPerDay"
    unfolding gl
    by (simp add: lastDay_def UTC_def gridStartNo_def gridCells_def F_def len_def algebra_simps)
  finally have e: "setDate tz lastDay (getDate tz lastDay + (6 - getDay tz lastDay))
      = UTC tz (gridStartNo tz cur * msPerDay) + (gridCells tz cur - 1) * msPerDay" .
  have "calendarDays tz cur =
      days_loop tz (UTC tz (gridStartNo tz cur * msPerDay))
        (UTC tz (gridStartNo tz cur * msPerDay) + (gridCells tz cur - 1) * msPerDay)"
    unfolding calendarDays_def Let_def newDate_first newDate_last
    using s e by (simp add: firstDay_def lastDay_def F_def len_def)
  also have "\<dots> = map (\<lambda>i. UTC tz (gridStartNo tz cur * msPerDay) + int i * msPerDay)
       [0..<nat (gridCells tz cur - 1 + 1)]"
    by (rule days_loop_eq) simp
  finally show ?thesis by simp
qed


lemma calendarDays_nth:
  "i < length (calendarDays tz cur) \<Longrightarrow>
     calendarDays tz cur ! i = UTC tz ((gridStartNo tz cur + int i) * msPerDay)"
  by (simp add: calendarDays_eq UTC_def algebra_simps)






section \<open>Coverage of the grid by the fetched weeks\<close>

text \<open>
  The week with offset \<open>k\<close> is the Monday-anchored local week that starts \<open>k\<close> weeks after
  the Monday of the current week, the Monday being computed as \<open>weeksToFetch\<close> computes
  \<open>currentMonday\<close>. \<open>inFetchedWeeks\<close> says that a date lies in the week of one of the given
  offsets.
\<close>

definition weekMonday :: "int \<Rightarrow> Date \<Rightarrow> int \<Rightarrow> Date" where
  "weekMonday tz now offset =
     (let today = setHours0 tz now;
          dayOfWeek = getDay tz today;
          daysToMonday = (if dayOfWeek = 0 then - 6 else 1 - dayOfWeek);
          currentMonday = setDate tz today (getDate tz today + daysToMonday)
      in currentMonday + offset * msPerWeek)"

definition inFetchedWeeks :: "int \<Rightarrow> Date \<Rightarrow> int list \<Rightarrow> Date \<Rightarrow> bool" where
  "inFetchedWeeks tz now offsets d =
     list_ex (\<lambda>k. weekMonday tz now k \<le> d \<and> d < weekMonday tz now (k + 1)) offsets"

text \<open>
  Which cells of the grid the six weeks cover, for every displayed month and every today:
  the first fetched week starts on the Monday six days before the grid's first Sunday
  (\<open>weeksToFetch_eq\<close>), so the cell with index \<open>i\<close> lies in a fetched week exactly when
  \<open>i < 36\<close> (\<open>fetched_prefix\<close>). Grids of 28 and of 35 cells are covered; of a grid of 42
  cells the last six are not.
\<close>

definition mondayNo :: "int \<Rightarrow> int" where
  "mondayNo n = n + (if WeekDay n = 0 then - 6 else 1 - WeekDay n)"

lemma mondayNo_mod: "(mondayNo n + 4) mod 7 = 1"
proof -
  have "WeekDay (mondayNo n) = (WeekDay n + (if WeekDay n = 0 then - 6 else 1 - WeekDay n)) mod 7"
    unfolding mondayNo_def by (rule WeekDay_shift)
  also have "\<dots> = 1" using WeekDay_bounds[of n] by (auto simp: mod_pos_pos_trivial)
  finally show ?thesis by (simp add: WeekDay_def)
qed

lemma monday_of_midnight:
  "setDate tz (UTC tz (n * msPerDay))
     (getDate tz (UTC tz (n * msPerDay))
        + (if getDay tz (UTC tz (n * msPerDay)) = 0 then - 6
           else 1 - getDay tz (UTC tz (n * msPerDay))))
   = UTC tz (mondayNo n * msPerDay)"
  unfolding setDate_getDate getDay_midnight
  by (simp add: mondayNo_def UTC_def algebra_simps)

lemma weekMonday_eq:
  "weekMonday tz now k = UTC tz ((mondayNo (Day (LocalTime tz now)) + 7 * k) * msPerDay)"
proof -
  have "weekMonday tz now k
      = UTC tz (mondayNo (Day (LocalTime tz now)) * msPerDay) + k * msPerWeek"
    unfolding weekMonday_def Let_def setHours0_def by (simp only: monday_of_midnight)
  then show ?thesis by (simp add: UTC_def msPerWeek_def msPerDay_def algebra_simps)
qed

lemma round_exact: "Math_round_div (7 * q * msPerDay) msPerWeek = q"
proof -
  have e: "2 * (7 * q * msPerDay) + msPerWeek = q * (2 * msPerWeek) + msPerWeek"
    by (simp add: msPerWeek_def msPerDay_def)
  show ?thesis unfolding Math_round_div_def e
    by (rule div_mod_unique(1)) (simp_all add: msPerWeek_def)
qed

lemma weeksToFetch_eq:
  "\<exists>q. 7 * q = gridStartNo tz cur - 6 - mondayNo (Day (LocalTime tz now))
     \<and> weeksToFetch tz now (calendarDays tz cur) = Some (map (\<lambda>i. q + int i) [0..<6])"
proof -
  define S where "S = gridStartNo tz cur"
  define M where "M = mondayNo (Day (LocalTime tz now))"
  have N: "0 < nat (gridCells tz cur)" using gridCells_values[of tz cur] by auto
  have hd: "calendarDays tz cur = UTC tz (S * msPerDay) # tl (calendarDays tz cur)"
    unfolding S_def using N
    by (subst (1 2) calendarDays_eq) (simp add: upt_conv_Cons del: upt_Suc)
  have w0: "WeekDay S = 0"
    unfolding S_def gridStartNo_def
    using WeekDay_shift[of "firstDayNo tz cur" "- WeekDay (firstDayNo tz cur)"]
    by (simp add: WeekDay_def)
  then have mS: "mondayNo S = S - 6" by (simp add: mondayNo_def)
  have "(S - 6 + 4) mod 7 = 1" using mondayNo_mod[of S] by (simp add: mS)
  moreover have "(M + 4) mod 7 = 1" unfolding M_def by (rule mondayNo_mod)
  ultimately have "(S - 6 - M) mod 7 = 0"
    by (metis add_diff_cancel_right' mod_diff_eq cancel_comm_monoid_add_class.diff_cancel mod_0)
  then obtain q where q: "7 * q = S - 6 - M" by (metis mod_eq_0_iff_dvd dvd_def)
  have first: "setDate tz (UTC tz (S * msPerDay))
      (getDate tz (UTC tz (S * msPerDay))
         + (if getDay tz (UTC tz (S * msPerDay)) = 0 then - 6
            else 1 - getDay tz (UTC tz (S * msPerDay))))
      = UTC tz ((S - 6) * msPerDay)"
    by (simp only: monday_of_midnight mS)
  have cur: "setDate tz (setHours0 tz now)
      (getDate tz (setHours0 tz now)
         + (if getDay tz (setHours0 tz now) = 0 then - 6 else 1 - getDay tz (setHours0 tz now)))
      = UTC tz (M * msPerDay)"
    unfolding setHours0_def M_def by (simp only: monday_of_midnight)
  have "UTC tz ((S - 6) * msPerDay) - UTC tz (M * msPerDay) = (S - 6 - M) * msPerDay"
    by (simp add: UTC_def algebra_simps)
  also have "\<dots> = 7 * q * msPerDay" by (simp only: q)
  finally have diff: "UTC tz ((S - 6) * msPerDay) - UTC tz (M * msPerDay) = 7 * q * msPerDay" .
  have "weeksToFetch tz now (calendarDays tz cur) = Some (map (\<lambda>i. q + int i) [0..<6])"
    by (subst hd) (simp only: weeksToFetch_def Let_def list.case first cur diff round_exact)
  with q show ?thesis unfolding S_def M_def by blast
qed

lemma six_weeks_window:
  fixes i :: nat
  shows "list_ex (\<lambda>j. 7 * int j \<le> int i + 6 \<and> int i < 7 * int j + 1) [0..<6] \<longleftrightarrow> i < 36"
proof -
  have "[0..<6] = [0, 1, 2, 3, 4, 5::nat]" by (simp add: upt_conv_Cons)
  then show ?thesis by simp arith
qed

lemma fetched_prefix:
  assumes "weeksToFetch tz now (calendarDays tz cur) = Some wks"
    and "i < length (calendarDays tz cur)"
  shows "inFetchedWeeks tz now wks (calendarDays tz cur ! i) \<longleftrightarrow> i < 36"
proof -
  define S where "S = gridStartNo tz cur"
  define M where "M = mondayNo (Day (LocalTime tz now))"
  from weeksToFetch_eq[of tz cur now] assms(1) obtain q
    where q: "7 * q = S - 6 - M" and wks: "wks = map (\<lambda>i. q + int i) [0..<6]"
    unfolding S_def M_def by auto
  have d: "calendarDays tz cur ! i = UTC tz ((S + int i) * msPerDay)"
    unfolding S_def using assms(2) by (rule calendarDays_nth)
  have le: "UTC tz (a * msPerDay) \<le> UTC tz (b * msPerDay) \<longleftrightarrow> a \<le> b"
    and lt: "UTC tz (a * msPerDay) < UTC tz (b * msPerDay) \<longleftrightarrow> a < b" for a b
    by (simp_all add: UTC_def msPerDay_def)
  have "inFetchedWeeks tz now wks (calendarDays tz cur ! i)
      \<longleftrightarrow> list_ex (\<lambda>j. M + 7 * (q + int j) \<le> S + int i
                       \<and> S + int i < M + 7 * (q + int j + 1)) [0..<6]"
    unfolding inFetchedWeeks_def wks d weekMonday_eq M_def[symmetric] le lt
    by (simp add: list_ex_iff)
  also have "\<dots> \<longleftrightarrow> list_ex (\<lambda>j. 7 * int j \<le> int i + 6 \<and> int i < 7 * int j + 1) [0..<6]"
  proof -
    have "M + 7 * (q + int j) \<le> S + int i \<and> S + int i < M + 7 * (q + int j + 1)
        \<longleftrightarrow> 7 * int j \<le> int i + 6 \<and> int i < 7 * int j + 1" for j
      using q by (simp add: algebra_simps) linarith
    then show ?thesis by simp
  qed
  also have "\<dots> \<longleftrightarrow> i < 36" by (rule six_weeks_window)
  finally show ?thesis .
qed

text \<open>
  Claim C1 says that every date of the grid lies in one of the six fetched weeks. The code
  at the displayed month March 2025, with today 10 March 2025 (UTC): the planner asks for
  the offsets -3..2, the weeks from Monday 17 February to Sunday 30 March; Monday 31 March
  is a date of the grid, and of the displayed month, and lies in none of them (nor do the
  five grid days after it). The grid is anchored on Sunday and the weeks on Monday, so the
  first fetched week holds one grid day only, and the sixth row of a six-row grid is left
  out but for its Sunday.
\<close>

theorem last_grid_week_not_fetched:
  "weeksToFetch 0 (newDate 0 2025 2 10) (calendarDays 0 (newDate 0 2025 2 10))
     = Some [- 3, - 2, - 1, 0, 1, 2]
   \<and> length (calendarDays 0 (newDate 0 2025 2 10)) = 42
   \<and> newDate 0 2025 2 31 \<in> set (calendarDays 0 (newDate 0 2025 2 10))
   \<and> getMonth 0 (newDate 0 2025 2 31) = getMonth 0 (newDate 0 2025 2 10)
   \<and> \<not> inFetchedWeeks 0 (newDate 0 2025 2 10) [- 3, - 2, - 1, 0, 1, 2] (newDate 0 2025 2 31)
   \<and> \<not> inFetchedWeeks 0 (newDate 0 2025 2 10) [- 3, - 2, - 1, 0, 1, 2]
         (last (calendarDays 0 (newDate 0 2025 2 10)))"
  by code_simp

section \<open>Date keys\<close>

text \<open>
  \<open>toString\<close> is the decimal rendering that \<^verbatim>\<open>String(n)\<close> and a template literal give an
  integer; \<open>padStart\<close> is \<^verbatim>\<open>String.prototype.padStart\<close> with a one-character filler (a
  string already long enough is returned unchanged, which the truncating subtraction on
  \<open>nat\<close> expresses). \<open>formatLocalDateKey\<close> is the component's function of that name.
\<close>

definition digit_char :: "nat \<Rightarrow> char" where
  "digit_char n = ''0123456789'' ! n"

function string_of_nat :: "nat \<Rightarrow> string" where
  "string_of_nat n =
     (if n < 10 then [digit_char n] else string_of_nat (n div 10) @ [digit_char (n mod 10)])"
  by pat_completeness auto
termination
  by (relation "measure id") auto

declare string_of_nat.simps [simp del]

definition toString :: "int \<Rightarrow> string" where
  "toString i = (if i < 0 then CHR ''-'' # string_of_nat (nat (- i)) else string_of_nat (nat i))"

definition padStart :: "nat \<Rightarrow> char \<Rightarrow> string \<Rightarrow> string" where
  "padStart n c s = replicate (n - length s) c @ s"

definition formatLocalDateKey :: "int \<Rightarrow> Date \<Rightarrow> string" where
  "formatLocalDateKey tz date =
     (let year = getFullYear tz date;
          month = padStart 2 CHR ''0'' (toString (getMonth tz date + 1));
          day = padStart 2 CHR ''0'' (toString (getDate tz date))
      in toString year @ ''-'' @ month @ ''-'' @ day)"

section \<open>Schedule entries and the day index\<close>

text \<open>
  \<open>ScheduleItem\<close> is the component's interface of that name. The day index is the
  \<^verbatim>\<open>Map<string, ScheduleItem[]>\<close> of the component, kept as an association list in insertion
  order, as a JavaScript \<^verbatim>\<open>Map\<close> keeps its entries; \<open>Map_has\<close>, \<open>Map_get\<close> and \<open>Map_set\<close> are
  its methods, and \<open>Map_push\<close> is \<^verbatim>\<open>map.get(key)!.push(item)\<close>, which appends to the array
  stored under the key.
\<close>

datatype AiringStatus = aired | airing_soon | airing_today | upcoming

record ScheduleItem =
  schedule_id :: int
  airing_at :: int
  episode :: int
  anime_id :: int
  title :: string
  cover_image :: string
  status :: string
  total_episodes :: "int option"
  score :: int
  airs_in_human :: string
  airing_status :: AiringStatus
  airing_time :: string
  airing_date :: string

type_synonym CalendarDayIndex = "(string \<times> ScheduleItem list) list"

definition Map_has :: "CalendarDayIndex \<Rightarrow> string \<Rightarrow> bool" where
  "Map_has m k = (map_of m k \<noteq> None)"

definition Map_get :: "CalendarDayIndex \<Rightarrow> string \<Rightarrow> ScheduleItem list option" where
  "Map_get m k = map_of m k"

definition Map_set :: "CalendarDayIndex \<Rightarrow> string \<Rightarrow> ScheduleItem list \<Rightarrow> CalendarDayIndex" where
  "Map_set m k v =
     (if Map_has m k then map (\<lambda>(k', v'). if k' = k then (k', v) else (k', v')) m
      else m @ [(k, v)])"

definition Map_push :: "CalendarDayIndex \<Rightarrow> string \<Rightarrow> ScheduleItem \<Rightarrow> CalendarDayIndex" where
  "Map_push m k item = map (\<lambda>(k', v'). if k' = k then (k', v' @ [item]) else (k', v')) m"

section \<open>Aggregation of the week payloads\<close>

text \<open>
  A fetch of one week either throws (\<open>FetchError\<close>: the request or the JSON parse failed)
  or yields a parsed body, whose \<^verbatim>\<open>schedule\<close> field may be missing (\<open>WeekData None\<close>) or is
  an object from weekday names to day buckets, iterated by \<^verbatim>\<open>Object.entries\<close> in insertion
  order. The status of the response is never read, so only the body counts. The body is
  data from the network and is used without validation: a bucket is \<open>None\<close> when its value is
  not an array, so that calling \<^verbatim>\<open>forEach\<close> on it throws, and an element of a bucket is
  \<open>None\<close> when it is \<^verbatim>\<open>null\<close> or \<^verbatim>\<open>undefined\<close>, so that reading its \<^verbatim>\<open>airing_at\<close> throws.
  Such an exception leaves the inner \<^verbatim>\<open>try\<close>: the \<^verbatim>\<open>catch\<close> logs the week as failed and the
  loop goes on with the next week, while \<^verbatim>\<open>newScheduleData\<close> keeps what the week had pushed
  before.

  \<open>addItem\<close> is the body of the inner \<^verbatim>\<open>forEach\<close>; \<open>addItems\<close> is the inner \<^verbatim>\<open>forEach\<close> over
  one bucket and \<open>addBuckets\<close> the outer one over the schedule; \<open>processWeek\<close> is the inner
  \<^verbatim>\<open>try\<close>/\<^verbatim>\<open>catch\<close> for one offset. Each returns the index together with a flag that is
  true when an exception was thrown, that is, when the \<^verbatim>\<open>catch\<close> block ran.
\<close>

type_synonym Bucket = "ScheduleItem option list option"

datatype FetchResult = FetchError | WeekData "(string \<times> Bucket) list option"

definition addItem :: "int \<Rightarrow> CalendarDayIndex \<Rightarrow> ScheduleItem \<Rightarrow> CalendarDayIndex" where
  "addItem tz newScheduleData item =
     (let airingDate = airing_at item * 1000;
          localDateKey = formatLocalDateKey tz airingDate;
          m = (if \<not> Map_has newScheduleData localDateKey
               then Map_set newScheduleData localDateKey [] else newScheduleData)
      in Map_push m localDateKey (item\<lparr>airing_date := localDateKey\<rparr>))"

fun addItems ::
  "int \<Rightarrow> CalendarDayIndex \<Rightarrow> ScheduleItem option list \<Rightarrow> CalendarDayIndex \<times> bool" where
  "addItems tz newScheduleData [] = (newScheduleData, False)"
| "addItems tz newScheduleData (None # items) = (newScheduleData, True)"
| "addItems tz newScheduleData (Some item # items) =
     addItems tz (addItem tz newScheduleData item) items"

fun addBuckets ::
  "int \<Rightarrow> CalendarDayIndex \<Rightarrow> (string \<times> Bucket) list \<Rightarrow> CalendarDayIndex \<times> bool" where
  "addBuckets tz newScheduleData [] = (newScheduleData, False)"
| "addBuckets tz newScheduleData ((day, None) # schedule) = (newScheduleData, True)"
| "addBuckets tz newScheduleData ((day, Some items) # schedule) =
     (case addItems tz newScheduleData items of
        (m, True) \<Rightarrow> (m, True)
      | (m, False) \<Rightarrow> addBuckets tz m schedule)"

definition processWeek ::
  "int \<Rightarrow> CalendarDayIndex \<Rightarrow> FetchResult \<Rightarrow> CalendarDayIndex \<times> bool" where
  "processWeek tz newScheduleData res =
     (case res of
        FetchError \<Rightarrow> (newScheduleData, True)
      | WeekData None \<Rightarrow> (newScheduleData, False)
      | WeekData (Some schedule) \<Rightarrow> addBuckets tz newScheduleData schedule)"

section \<open>Component state, selection and the fetch round\<close>

text \<open>
  \<open>ComponentState\<close> holds the React state of the component that \<^verbatim>\<open>loadMonthSchedule\<close> reads
  and sets; a state setter is an assignment to the record. \<open>chooseSelection\<close> is the
  selection block that follows \<^verbatim>\<open>setScheduleData\<close>: it returns \<open>None\<close> when the block is
  skipped (the selection is kept) and otherwise the key and the entry list it sets.

  \<^verbatim>\<open>loadMonthSchedule\<close> is asynchronous. A \<open>Round\<close> is one call of it: the values its closure
  captured from the render that started it (\<open>weeks\<close>, \<open>capturedDate\<close>, \<open>capturedSelected\<close>,
  \<open>capturedDays\<close>) and its locals (\<open>newData\<close> for \<^verbatim>\<open>newScheduleData\<close>, \<open>completedWeeks\<close>).
  \<open>startRound\<close> is the part before the first \<^verbatim>\<open>await\<close>; \<open>stepRound\<close> is one pass of the
  \<^verbatim>\<open>for\<close> loop, run when the response of the next week is there, and for the last week it
  goes on to \<open>commitRound\<close>: \<^verbatim>\<open>setScheduleData\<close>, the selection block and the \<^verbatim>\<open>finally\<close>
  block. \<open>fetcher\<close> gives the outcome of the request for each offset. \<open>loadMonthSchedule\<close>
  is a round run from start to end with nothing in between. The effect that copies the
  entries of the selected day into \<^verbatim>\<open>selectedAnime\<close> after a render is not part of the
  function and is not modelled.
\<close>

record ComponentState =
  scheduleData :: CalendarDayIndex
  loading :: bool
  loadingProgress :: int
  currentDate :: Date
  selectedDate :: "string option"
  selectedAnime :: "ScheduleItem list"

definition entriesOf :: "CalendarDayIndex \<Rightarrow> string \<Rightarrow> ScheduleItem list" where
  "entriesOf m k = (case Map_get m k of Some xs \<Rightarrow> xs | None \<Rightarrow> [])"

definition chooseSelection ::
  "int \<Rightarrow> Date \<Rightarrow> Date \<Rightarrow> Date list \<Rightarrow> string option \<Rightarrow> CalendarDayIndex
     \<Rightarrow> (string \<times> ScheduleItem list) option" where
  "chooseSelection tz now cur days sel newScheduleData =
     (if (case sel of None \<Rightarrow> True
          | Some s \<Rightarrow> s = [] \<or> \<not> Map_has newScheduleData s)
      then
        (let today = now;
             todayStr = formatLocalDateKey tz today
         in if getMonth tz today = getMonth tz cur
               \<and> getFullYear tz today = getFullYear tz cur
            then Some (todayStr, entriesOf newScheduleData todayStr)
            else
              (let firstOfMonth =
                     newDate tz (getFullYear tz cur) (getMonth tz cur) 1;
                   firstKey = formatLocalDateKey tz firstOfMonth;
                   monthDays = filter (\<lambda>d. getMonth tz d = getMonth tz cur
                                \<and> getFullYear tz d = getFullYear tz cur) days;
                   firstDayWithAnime = find (\<lambda>d.
                       let key = formatLocalDateKey tz d
                       in Map_has newScheduleData key
                          \<and> (case Map_get newScheduleData key of
                                Some xs \<Rightarrow> length xs > 0 | None \<Rightarrow> False)) monthDays
               in case firstDayWithAnime of
                    Some d \<Rightarrow>
                      (let key = formatLocalDateKey tz d
                       in Some (key, entriesOf newScheduleData key))
                  | None \<Rightarrow> Some (firstKey, [])))
      else None)"

record Round =
  weeks :: "int list"
  capturedDate :: Date
  capturedSelected :: "string option"
  capturedDays :: "Date list"
  newData :: CalendarDayIndex
  completedWeeks :: nat

definition commitRound :: "int \<Rightarrow> Date \<Rightarrow> Round \<Rightarrow> ComponentState \<Rightarrow> ComponentState" where
  "commitRound tz now r st =
     (let st1 = st\<lparr>scheduleData := newData r\<rparr>;
          st2 = (case chooseSelection tz now (capturedDate r) (capturedDays r)
                        (capturedSelected r) (newData r) of
                   None \<Rightarrow> st1
                 | Some (key, anime) \<Rightarrow> st1\<lparr>selectedDate := Some key, selectedAnime := anime\<rparr>)
      in st2\<lparr>loading := False, loadingProgress := 100\<rparr>)"

definition startRound ::
  "int \<Rightarrow> Date \<Rightarrow> int list \<Rightarrow> Date list \<Rightarrow> ComponentState \<Rightarrow> ComponentState \<times> Round" where
  "startRound tz now wks days st =
     (let st1 = st\<lparr>loading := True, loadingProgress := 0\<rparr>;
          r = \<lparr>weeks = wks, capturedDate = currentDate st, capturedSelected = selectedDate st,
               capturedDays = days, newData = [], completedWeeks = 0\<rparr>
      in if wks = [] then (commitRound tz now r st1, r) else (st1, r))"

definition stepRound ::
  "int \<Rightarrow> Date \<Rightarrow> (int \<Rightarrow> FetchResult) \<Rightarrow> ComponentState \<times> Round \<Rightarrow> ComponentState \<times> Round" where
  "stepRound tz now fetcher sr =
     (let st = fst sr; r = snd sr
      in if completedWeeks r < length (weeks r) then
           (let offset = weeks r ! completedWeeks r;
                r1 = r\<lparr>newData := fst (processWeek tz (newData r) (fetcher offset)),
                       completedWeeks := completedWeeks r + 1\<rparr>;
                st1 = st\<lparr>loadingProgress :=
                        Math_round_div (int (completedWeeks r1) * 100) (int (length (weeks r)))\<rparr>
            in if completedWeeks r1 < length (weeks r) then (st1, r1)
               else (commitRound tz now r1 st1, r1))
         else (st, r))"

definition loadMonthSchedule ::
  "int \<Rightarrow> Date \<Rightarrow> (int \<Rightarrow> FetchResult) \<Rightarrow> int list \<Rightarrow> Date list \<Rightarrow> ComponentState
     \<Rightarrow> ComponentState" where
  "loadMonthSchedule tz now fetcher wks days st =
     fst ((stepRound tz now fetcher ^^ length wks) (startRound tz now wks days st))"

section \<open>What the aggregation loop computes\<close>

text \<open>
  \<open>epochToLocalDateKey\<close> names the key computation that \<open>addItem\<close> performs on an item's
  \<open>airing_at\<close>. \<open>itemsOf\<close> lists the items of one fetch result that the aggregation reads,
  in iteration order: none for a failed fetch or a body without \<^verbatim>\<open>schedule\<close>, and otherwise
  the items that come before the first bucket that is not an array and the first element
  that is null, which is every item of a well-formed payload. \<open>fetchedItems\<close> lists those of
  a whole round. \<open>allEntries\<close> lists every entry stored in an index.
\<close>

definition epochToLocalDateKey :: "int \<Rightarrow> int \<Rightarrow> string" where
  "epochToLocalDateKey tz epochSeconds = formatLocalDateKey tz (epochSeconds * 1000)"

fun bucketsItems :: "(string \<times> Bucket) list \<Rightarrow> ScheduleItem list" where
  "bucketsItems [] = []"
| "bucketsItems ((day, None) # schedule) = []"
| "bucketsItems ((day, Some items) # schedule) =
     map the (takeWhile (\<lambda>x. x \<noteq> None) items)
     @ (if None \<in> set items then [] else bucketsItems schedule)"

definition itemsOf :: "FetchResult \<Rightarrow> ScheduleItem list" where
  "itemsOf res = (case res of
       FetchError \<Rightarrow> []
     | WeekData None \<Rightarrow> []
     | WeekData (Some schedule) \<Rightarrow> bucketsItems schedule)"

definition fetchedItems :: "(int \<Rightarrow> FetchResult) \<Rightarrow> int list \<Rightarrow> ScheduleItem list" where
  "fetchedItems fetcher wks = concat (map (\<lambda>offset. itemsOf (fetcher offset)) wks)"

definition allEntries :: "CalendarDayIndex \<Rightarrow> ScheduleItem list" where
  "allEntries m = concat (map snd m)"

definition stored :: "int \<Rightarrow> ScheduleItem \<Rightarrow> ScheduleItem" where
  "stored tz item = item\<lparr>airing_date := epochToLocalDateKey tz (airing_at item)\<rparr>"

lemma map_of_push:
  "map_of (Map_push m k x) k' =
     (if k' = k then map_option (\<lambda>v. v @ [x]) (map_of m k) else map_of m k')"
  by (induction m) (auto simp: Map_push_def)

lemma keys_push: "map fst (Map_push m k x) = map fst m"
  by (induction m) (auto simp: Map_push_def)


lemma Map_push_absent: "k \<notin> fst ` set m \<Longrightarrow> Map_push m k x = m"
  by (induction m) (auto simp: Map_push_def)

lemma allEntries_push:
  "distinct (map fst m) \<Longrightarrow> k \<in> set (map fst m) \<Longrightarrow>
     mset (allEntries (Map_push m k x)) = mset (allEntries m) + {#x#}"
proof (induction m)
  case Nil
  then show ?case by simp
next
  case (Cons p m)
  obtain k' v where p: "p = (k', v)" by (cases p)
  show ?case
  proof (cases "k' = k")
    case True
    then have "k \<notin> set (map fst m)" using Cons.prems(1) p by simp
    then have "Map_push m k x = m"
      by (simp add: Map_push_absent)
    then show ?thesis using True p by (simp add: allEntries_def Map_push_def)
  next
    case False
    then have "k \<in> set (map fst m)" using Cons.prems(2) p by auto
    moreover have "distinct (map fst m)" using Cons.prems(1) by simp
    ultimately have "mset (allEntries (Map_push m k x)) = mset (allEntries m) + {#x#}"
      by (rule Cons.IH[rotated])
    then show ?thesis using False p by (simp add: allEntries_def Map_push_def)
  qed
qed

lemma addItem_cases:
  "addItem tz m item =
     (let k = epochToLocalDateKey tz (airing_at item)
      in if k \<in> fst ` set m then Map_push m k (stored tz item)
         else m @ [(k, [stored tz item])])"
proof (cases "epochToLocalDateKey tz (airing_at item) \<in> fst ` set m")
  case True
  then have "Map_has m (epochToLocalDateKey tz (airing_at item))"
    by (simp add: Map_has_def map_of_eq_None_iff)
  then show ?thesis using True
    by (simp add: addItem_def Let_def epochToLocalDateKey_def stored_def)
next
  case False
  then have h: "\<not> Map_has m (epochToLocalDateKey tz (airing_at item))"
    by (simp add: Map_has_def map_of_eq_None_iff)
  have "Map_push (m @ [(epochToLocalDateKey tz (airing_at item), [])])
          (epochToLocalDateKey tz (airing_at item)) (stored tz item)
        = Map_push m (epochToLocalDateKey tz (airing_at item)) (stored tz item)
          @ [(epochToLocalDateKey tz (airing_at item), [stored tz item])]"
    by (simp add: Map_push_def)
  then show ?thesis using False h Map_push_absent[OF False]
    by (simp add: addItem_def Let_def Map_set_def epochToLocalDateKey_def stored_def)
qed


lemma addItem_distinct: "distinct (map fst m) \<Longrightarrow> distinct (map fst (addItem tz m item))"
  by (simp add: addItem_cases Let_def keys_push)

lemma addItem_entriesOf:
  "entriesOf (addItem tz m item) k =
     entriesOf m k @ (if epochToLocalDateKey tz (airing_at item) = k then [stored tz item] else [])"
proof (cases "epochToLocalDateKey tz (airing_at item) \<in> fst ` set m")
  case True
  then obtain v where "map_of m (epochToLocalDateKey tz (airing_at item)) = Some v"
    by (metis map_of_eq_None_iff not_None_eq)
  then show ?thesis using True
    by (auto simp: addItem_cases Let_def entriesOf_def Map_get_def map_of_push)
next
  case False
  then have "map_of m (epochToLocalDateKey tz (airing_at item)) = None"
    by (simp add: map_of_eq_None_iff)
  then show ?thesis using False
    by (auto simp: addItem_cases Let_def entriesOf_def Map_get_def map_add_def split: option.splits)
qed

lemma addItem_allEntries:
  "distinct (map fst m) \<Longrightarrow>
     mset (allEntries (addItem tz m item)) = mset (allEntries m) + {#stored tz item#}"
  by (simp add: addItem_cases Let_def allEntries_push) (simp add: allEntries_def)

definition aggregate :: "int \<Rightarrow> (int \<Rightarrow> FetchResult) \<Rightarrow> int list \<Rightarrow> CalendarDayIndex" where
  "aggregate tz fetcher wks = foldl (\<lambda>m offset. fst (processWeek tz m (fetcher offset))) [] wks"

lemma addItems_items:
  "addItems tz m items
     = (foldl (addItem tz) m (map the (takeWhile (\<lambda>x. x \<noteq> None) items)), None \<in> set items)"
  by (induction tz m items rule: addItems.induct) auto

lemma addBuckets_items:
  "fst (addBuckets tz m schedule) = foldl (addItem tz) m (bucketsItems schedule)"
  by (induction tz m schedule rule: addBuckets.induct) (simp_all add: addItems_items)

lemma processWeek_items: "fst (processWeek tz m res) = foldl (addItem tz) m (itemsOf res)"
  by (simp add: processWeek_def itemsOf_def addBuckets_items split: FetchResult.splits option.splits)

lemma weeks_fold:
  "foldl (\<lambda>m offset. fst (processWeek tz m (fetcher offset))) m wks
     = foldl (addItem tz) m (fetchedItems fetcher wks)"
  by (induction wks arbitrary: m) (simp_all add: fetchedItems_def processWeek_items)

lemma aggregate_items: "aggregate tz fetcher wks = foldl (addItem tz) [] (fetchedItems fetcher wks)"
  by (simp add: aggregate_def weeks_fold)

lemma fold_distinct:
  "distinct (map fst m) \<Longrightarrow> distinct (map fst (foldl (addItem tz) m items))"
  by (induction items arbitrary: m) (simp_all add: addItem_distinct)


lemma fold_entriesOf:
  "entriesOf (foldl (addItem tz) m items) k
     = entriesOf m k
       @ map (stored tz) (filter (\<lambda>item. epochToLocalDateKey tz (airing_at item) = k) items)"
  by (induction items arbitrary: m) (simp_all add: addItem_entriesOf)

lemma fold_allEntries:
  "distinct (map fst m) \<Longrightarrow>
     mset (allEntries (foldl (addItem tz) m items)) = mset (allEntries m) + mset (map (stored tz) items)"
  by (induction items arbitrary: m) (simp_all add: addItem_allEntries addItem_distinct)

lemma aggregate_entriesOf:
  "entriesOf (aggregate tz fetcher wks) k
     = map (stored tz)
         (filter (\<lambda>item. epochToLocalDateKey tz (airing_at item) = k) (fetchedItems fetcher wks))"
proof -
  have "entriesOf [] k = []" by (simp add: entriesOf_def Map_get_def)
  then show ?thesis by (simp add: aggregate_items fold_entriesOf)
qed


lemma aggregate_distinct: "distinct (map fst (aggregate tz fetcher wks))"
  by (simp add: aggregate_items fold_distinct)

lemma aggregate_allEntries:
  "mset (allEntries (aggregate tz fetcher wks)) = mset (map (stored tz) (fetchedItems fetcher wks))"
proof -
  have "allEntries [] = []" by (simp add: allEntries_def)
  then show ?thesis by (simp add: aggregate_items fold_allEntries)
qed


lemma commitRound_ignores_progress:
  "commitRound tz now r (st\<lparr>loading := a, loadingProgress := b\<rparr>) = commitRound tz now r st"
  by (simp add: commitRound_def Let_def split: option.splits prod.splits)

lemma commitRound_ignores_progress':
  "commitRound tz now r (st\<lparr>loadingProgress := b\<rparr>) = commitRound tz now r st"
  by (simp add: commitRound_def Let_def split: option.splits prod.splits)

definition roundAfter ::
  "int \<Rightarrow> (int \<Rightarrow> FetchResult) \<Rightarrow> int list \<Rightarrow> Date list \<Rightarrow> ComponentState \<Rightarrow> nat \<Rightarrow> Round" where
  "roundAfter tz fetcher wks days st n =
     \<lparr>weeks = wks, capturedDate = currentDate st, capturedSelected = selectedDate st,
      capturedDays = days, newData = aggregate tz fetcher (take n wks), completedWeeks = n\<rparr>"

lemma stepRound_roundAfter:
  assumes "n < length wks"
  shows "snd (stepRound tz now fetcher (s, roundAfter tz fetcher wks days st n))
      = roundAfter tz fetcher wks days st (Suc n)"
  using assms
  by (simp add: stepRound_def Let_def roundAfter_def aggregate_def take_Suc_conv_app_nth)


lemma stepRound_pending:
  assumes "Suc n < length wks"
  shows "fst (stepRound tz now fetcher (s, roundAfter tz fetcher wks days st n))
      = s\<lparr>loadingProgress := Math_round_div (int (Suc n) * 100) (int (length wks))\<rparr>"
  using assms by (simp add: stepRound_def Let_def roundAfter_def)

lemma stepRound_final:
  assumes "Suc n = length wks"
  shows "fst (stepRound tz now fetcher (s, roundAfter tz fetcher wks days st n))
      = commitRound tz now (roundAfter tz fetcher wks days st (Suc n)) s"
proof -
  have "snd (stepRound tz now fetcher (s, roundAfter tz fetcher wks days st n))
      = roundAfter tz fetcher wks days st (Suc n)"
    using assms by (intro stepRound_roundAfter) simp
  moreover have "fst (stepRound tz now fetcher (s, roundAfter tz fetcher wks days st n))
      = commitRound tz now (snd (stepRound tz now fetcher (s, roundAfter tz fetcher wks days st n)))
          (s\<lparr>loadingProgress := Math_round_div (int (Suc n) * 100) (int (length wks))\<rparr>)"
    using assms by (simp add: stepRound_def Let_def roundAfter_def)
  ultimately show ?thesis by (simp add: commitRound_ignores_progress')
qed

lemma run_round:
  assumes "wks \<noteq> []" "n \<le> length wks"
  shows "snd ((stepRound tz now fetcher ^^ n) (startRound tz now wks days st))
           = roundAfter tz fetcher wks days st n
       \<and> (if n < length wks
          then \<exists>p. fst ((stepRound tz now fetcher ^^ n) (startRound tz now wks days st))
                 = st\<lparr>loading := True, loadingProgress := p\<rparr>
          else fst ((stepRound tz now fetcher ^^ n) (startRound tz now wks days st))
                 = commitRound tz now (roundAfter tz fetcher wks days st n) st)"
  using assms(2)
proof (induction n)
  case 0
  then show ?case using assms(1)
    by (auto simp: startRound_def Let_def roundAfter_def aggregate_def)
next
  case (Suc n)
  define sr where "sr = (stepRound tz now fetcher ^^ n) (startRound tz now wks days st)"
  from Suc have n: "n < length wks" by simp
  with Suc.IH obtain p where
    sr: "sr = (st\<lparr>loading := True, loadingProgress := p\<rparr>, roundAfter tz fetcher wks days st n)"
    unfolding sr_def by (cases "(stepRound tz now fetcher ^^ n) (startRound tz now wks days st)") auto
  have step: "(stepRound tz now fetcher ^^ Suc n) (startRound tz now wks days st)
      = stepRound tz now fetcher sr" by (simp add: sr_def)
  have 1: "snd (stepRound tz now fetcher sr) = roundAfter tz fetcher wks days st (Suc n)"
    unfolding sr using n by (rule stepRound_roundAfter)
  show ?case
  proof (cases "Suc n < length wks")
    case True
    then show ?thesis unfolding step using 1 stepRound_pending[OF True, of tz now fetcher _ days st]
      by (auto simp: sr)
  next
    case False
    with n have e: "Suc n = length wks" by simp
    show ?thesis unfolding step using 1 False stepRound_final[OF e, of tz now fetcher _ days st]
      by (simp add: sr commitRound_ignores_progress)
  qed
qed

lemma loadMonthSchedule_eq:
  "loadMonthSchedule tz now fetcher wks days st
     = commitRound tz now (roundAfter tz fetcher wks days st (length wks)) st"
proof (cases "wks = []")
  case True
  then show ?thesis
    by (simp add: loadMonthSchedule_def startRound_def Let_def roundAfter_def aggregate_def
        commitRound_ignores_progress)
next
  case False
  from run_round[OF False order_refl, of tz now fetcher days st]
  show ?thesis by (simp add: loadMonthSchedule_def)
qed

lemma commitRound_scheduleData: "scheduleData (commitRound tz now r st) = newData r"
  by (simp add: commitRound_def Let_def split: option.splits prod.splits)

lemma commitRound_loading:
  "loading (commitRound tz now r st) = False" "loadingProgress (commitRound tz now r st) = 100"
  by (simp_all add: commitRound_def Let_def split: option.splits prod.splits)

lemma loadMonthSchedule_scheduleData:
  "scheduleData (loadMonthSchedule tz now fetcher wks days st) = aggregate tz fetcher wks"
  by (simp add: loadMonthSchedule_eq commitRound_scheduleData roundAfter_def)

section \<open>Properties of the aggregation pass\<close>

text \<open>
  Example data for the concrete instances below: an episode airing at
  2025-01-15T07:30:00Z (epoch second 1736926200) that the server files under Wednesday,
  15 January; a viewer eight hours west of Greenwich; and a component state before the load.
\<close>

definition exampleItem :: ScheduleItem where
  "exampleItem = \<lparr>schedule_id = 42, airing_at = 1736926200, episode = 3, anime_id = 7,
     title = ''Example'', cover_image = '''', status = ''RELEASING'', total_episodes = None,
     score = 80, airs_in_human = '''', airing_status = upcoming, airing_time = ''07:30'',
     airing_date = ''2025-01-15''\<rparr>"

definition utcMinus8 :: int where
  "utcMinus8 = - 8 * 60 * 60 * 1000"

definition exampleState :: ComponentState where
  "exampleState = \<lparr>scheduleData = [], loading = False, loadingProgress = 0,
     currentDate = newDate utcMinus8 2025 0 20, selectedDate = None, selectedAnime = []\<rparr>"

definition exampleFetcher :: "int \<Rightarrow> FetchResult" where
  "exampleFetcher offset =
     (if offset = 0 \<or> offset = 1 then WeekData (Some [(''WEDNESDAY'', Some [Some exampleItem])])
      else if offset = 2 then FetchError
      else WeekData None)"

lemma example_key: "epochToLocalDateKey utcMinus8 1736926200 = ''2025-01-14''"
  by code_simp




text \<open>
  Claim C10. Every entry stored under a key \<open>k\<close> is a fetched item with its \<open>airing_date\<close>
  overwritten by \<open>k\<close>, the date key recomputed from its own \<open>airing_at\<close>; each other field is
  the one of the server payload.
\<close>

theorem stored_entry_fields:
  "\<forall>e \<in> set (entriesOf (scheduleData (loadMonthSchedule tz now fetcher wks days st)) k).
      airing_date e = k \<and> k = epochToLocalDateKey tz (airing_at e)
      \<and> (\<exists>item \<in> set (fetchedItems fetcher wks).
            e = item\<lparr>airing_date := k\<rparr>
            \<and> schedule_id e = schedule_id item \<and> airing_at e = airing_at item
            \<and> episode e = episode item \<and> anime_id e = anime_id item
            \<and> title e = title item \<and> cover_image e = cover_image item
            \<and> status e = status item \<and> total_episodes e = total_episodes item
            \<and> score e = score item \<and> airs_in_human e = airs_in_human item
            \<and> airing_status e = airing_status item \<and> airing_time e = airing_time item)"
  by (auto simp add: loadMonthSchedule_scheduleData aggregate_entriesOf stored_def)

theorem stored_entry_fields_witness:
  "entriesOf (scheduleData (loadMonthSchedule utcMinus8 0 exampleFetcher [0] [] exampleState))
       ''2025-01-14'' \<noteq> []
   \<and> airing_date (hd (entriesOf (scheduleData
          (loadMonthSchedule utcMinus8 0 exampleFetcher [0] [] exampleState)) ''2025-01-14''))
       = ''2025-01-14''
   \<and> title (hd (entriesOf (scheduleData
          (loadMonthSchedule utcMinus8 0 exampleFetcher [0] [] exampleState)) ''2025-01-14''))
       = ''Example''"
proof -
  define xs where "xs = entriesOf (scheduleData
      (loadMonthSchedule utcMinus8 0 exampleFetcher [0] [] exampleState)) ''2025-01-14''"
  have xs: "xs = [exampleItem\<lparr>airing_date := ''2025-01-14''\<rparr>]"
    unfolding xs_def using example_key
    by (simp add: loadMonthSchedule_scheduleData aggregate_entriesOf fetchedItems_def itemsOf_def
        exampleFetcher_def stored_def exampleItem_def)
  then have ne: "xs \<noteq> []" and mem: "hd xs \<in> set xs" by simp_all
  from stored_entry_fields[of utcMinus8 0 exampleFetcher "[0]" "[]" exampleState "''2025-01-14''"]
    mem
  have "airing_date (hd xs) = ''2025-01-14''
      \<and> (\<exists>item \<in> set (fetchedItems exampleFetcher [0]). title (hd xs) = title item)"
    unfolding xs_def by blast
  then have "airing_date (hd xs) = ''2025-01-14''" "title (hd xs) = ''Example''"
    by (simp_all add: fetchedItems_def itemsOf_def exampleFetcher_def exampleItem_def)
  with ne show ?thesis unfolding xs_def by simp
qed

text \<open>
  Claim C9. The index that a load publishes is a function of the viewer's offset, the
  requested week offsets and the week payloads alone: two passes over the same payloads
  publish the same index, the same keys in the same order with the same entry lists,
  whatever the component state (and the index in it) before each pass, and whatever the
  clock and the grid.
\<close>

theorem aggregation_idempotent:
  "scheduleData (loadMonthSchedule tz now1 fetcher wks days1 st1)
     = scheduleData (loadMonthSchedule tz now2 fetcher wks days2 st2)
   \<and> scheduleData (loadMonthSchedule tz now2 fetcher wks days2
        (loadMonthSchedule tz now1 fetcher wks days1 st1))
     = scheduleData (loadMonthSchedule tz now1 fetcher wks days1 st1)"
  by (simp add: loadMonthSchedule_scheduleData)

theorem aggregation_idempotent_witness:
  "scheduleData (loadMonthSchedule utcMinus8 0 exampleFetcher [0, 1, 2] []
       (exampleState\<lparr>scheduleData := [(''2024-12-31'', [exampleItem])]\<rparr>))
     = scheduleData (loadMonthSchedule utcMinus8 0 exampleFetcher [0, 1, 2] [] exampleState)"
  using aggregation_idempotent[of utcMinus8 0 exampleFetcher "[0, 1, 2]" "[]"
      "exampleState\<lparr>scheduleData := [(''2024-12-31'', [exampleItem])]\<rparr>" 0 "[]" exampleState]
  by simp

text \<open>
  A week has succeeded when its fetch returned a body with a schedule. A schedule is
  well-formed when every bucket is an array without null elements, and \<open>payloadItems\<close> lists
  all the items it holds.
\<close>

definition succeeded :: "FetchResult \<Rightarrow> bool" where
  "succeeded res = (case res of FetchError \<Rightarrow> False | WeekData None \<Rightarrow> False
     | WeekData (Some schedule) \<Rightarrow> True)"

definition wellFormed :: "(string \<times> Bucket) list \<Rightarrow> bool" where
  "wellFormed schedule =
     list_all (\<lambda>(day, bucket). case bucket of None \<Rightarrow> False | Some items \<Rightarrow> None \<notin> set items)
       schedule"

definition payloadItems :: "(string \<times> Bucket) list \<Rightarrow> ScheduleItem list" where
  "payloadItems schedule =
     concat (map (\<lambda>(day, bucket). case bucket of None \<Rightarrow> []
                    | Some items \<Rightarrow> concat (map (\<lambda>x. case x of None \<Rightarrow> [] | Some item \<Rightarrow> [item]) items))
               schedule)"

definition payloadOf :: "FetchResult \<Rightarrow> ScheduleItem list" where
  "payloadOf res = (case res of FetchError \<Rightarrow> [] | WeekData None \<Rightarrow> []
     | WeekData (Some schedule) \<Rightarrow> payloadItems schedule)"

definition wellFormedResult :: "FetchResult \<Rightarrow> bool" where
  "wellFormedResult res = (case res of FetchError \<Rightarrow> True | WeekData None \<Rightarrow> True
     | WeekData (Some schedule) \<Rightarrow> wellFormed schedule)"

lemma present_items:
  "None \<notin> set items \<Longrightarrow>
     map the (takeWhile (\<lambda>x. x \<noteq> None) items)
       = concat (map (\<lambda>x. case x of None \<Rightarrow> [] | Some item \<Rightarrow> [item]) items)"
  by (induction items) auto

lemma read_prefix:
  "\<exists>rest. concat (map (\<lambda>x. case x of None \<Rightarrow> [] | Some item \<Rightarrow> [item]) items)
     = map the (takeWhile (\<lambda>x. x \<noteq> None) items) @ rest"
  by (induction items) auto

lemma bucketsItems_wellFormed: "wellFormed schedule \<Longrightarrow> bucketsItems schedule = payloadItems schedule"
  by (induction schedule rule: bucketsItems.induct)
     (simp_all add: wellFormed_def payloadItems_def present_items del: not_None_eq)

lemma bucketsItems_prefix: "\<exists>rest. payloadItems schedule = bucketsItems schedule @ rest"
proof (induction schedule rule: bucketsItems.induct)
  case 1
  then show ?case by (simp add: payloadItems_def)
next
  case (2 day schedule)
  then show ?case by simp
next
  case (3 day items schedule)
  show ?case
  proof (cases "None \<in> set items")
    case True
    from read_prefix[of items] obtain rest where
      "concat (map (\<lambda>x. case x of None \<Rightarrow> [] | Some item \<Rightarrow> [item]) items)
         = map the (takeWhile (\<lambda>x. x \<noteq> None) items) @ rest" ..
    then show ?thesis using True by (simp add: payloadItems_def del: not_None_eq)
  next
    case False
    with 3 obtain rest where "payloadItems schedule = bucketsItems schedule @ rest" by auto
    then show ?thesis using False by (simp add: payloadItems_def present_items del: not_None_eq)
  qed
qed

lemma itemsOf_wellFormed: "wellFormedResult res \<Longrightarrow> itemsOf res = payloadOf res"
  by (simp add: wellFormedResult_def itemsOf_def payloadOf_def bucketsItems_wellFormed
      split: FetchResult.splits option.splits)

lemma payloadOf_succeeded:
  "concat (map (\<lambda>offset. payloadOf (fetcher offset)) (filter (\<lambda>offset. succeeded (fetcher offset)) wks))
     = concat (map (\<lambda>offset. payloadOf (fetcher offset)) wks)"
  by (induction wks) (auto simp: payloadOf_def succeeded_def split: FetchResult.splits option.splits)

lemma fetchedItems_wellFormed:
  "\<forall>offset \<in> set wks. wellFormedResult (fetcher offset) \<Longrightarrow>
     fetchedItems fetcher wks
       = concat (map (\<lambda>offset. payloadOf (fetcher offset))
           (filter (\<lambda>offset. succeeded (fetcher offset)) wks))"
  unfolding payloadOf_succeeded fetchedItems_def
  by (induction wks) (simp_all add: itemsOf_wellFormed)

lemma fetchedItems_none:
  "\<forall>offset \<in> set wks. \<not> succeeded (fetcher offset) \<Longrightarrow> fetchedItems fetcher wks = []"
  by (induction wks)
     (auto simp: fetchedItems_def itemsOf_def succeeded_def split: FetchResult.splits option.splits)

text \<open>
  Claim C7, as amended. Whatever the outcome of each request of a round, the load runs to
  its end, with \<open>loading\<close> false and progress 100 when it returns. A week whose request or
  JSON parse throws, or whose body has no schedule, leaves the index as it was. The index
  holds exactly the entries that the weeks' aggregation read (\<open>fetchedItems\<close>): when every
  payload is well-formed these are all the entries of the succeeding weeks, and nothing
  else; the index is empty when no week succeeds. A week whose payload makes the
  aggregation throw part-way (a bucket that is not an array, a null element) is logged
  as failed like a failed request, but the entries it had pushed before the exception stay
  in the index: they are a prefix of the payload's entries.
\<close>

theorem partial_failure_tolerated:
  "mset (allEntries (scheduleData (loadMonthSchedule tz now fetcher wks days st)))
     = mset (map (stored tz) (fetchedItems fetcher wks))
   \<and> ((\<forall>offset \<in> set wks. wellFormedResult (fetcher offset))
        \<longrightarrow> mset (allEntries (scheduleData (loadMonthSchedule tz now fetcher wks days st)))
            = mset (map (stored tz)
                (concat (map (\<lambda>offset. payloadOf (fetcher offset))
                   (filter (\<lambda>offset. succeeded (fetcher offset)) wks)))))
   \<and> ((\<forall>offset \<in> set wks. \<not> succeeded (fetcher offset))
        \<longrightarrow> scheduleData (loadMonthSchedule tz now fetcher wks days st) = [])
   \<and> (\<not> succeeded res \<longrightarrow> fst (processWeek tz m res) = m)
   \<and> (\<exists>rest. payloadOf res = itemsOf res @ rest)
   \<and> loading (loadMonthSchedule tz now fetcher wks days st) = False
   \<and> loadingProgress (loadMonthSchedule tz now fetcher wks days st) = 100"
proof -
  have 1: "mset (allEntries (scheduleData (loadMonthSchedule tz now fetcher wks days st)))
     = mset (map (stored tz) (fetchedItems fetcher wks))"
    by (simp only: loadMonthSchedule_scheduleData aggregate_allEntries)
  have 2: "(\<forall>offset \<in> set wks. wellFormedResult (fetcher offset))
        \<longrightarrow> mset (allEntries (scheduleData (loadMonthSchedule tz now fetcher wks days st)))
            = mset (map (stored tz)
                (concat (map (\<lambda>offset. payloadOf (fetcher offset))
                   (filter (\<lambda>offset. succeeded (fetcher offset)) wks))))"
    unfolding 1 using fetchedItems_wellFormed[of wks fetcher] by simp
  have 3: "(\<forall>offset \<in> set wks. \<not> succeeded (fetcher offset))
        \<longrightarrow> scheduleData (loadMonthSchedule tz now fetcher wks days st) = []"
    using fetchedItems_none[of wks fetcher]
    by (auto simp add: loadMonthSchedule_scheduleData aggregate_items)
  have 4: "\<not> succeeded res \<longrightarrow> fst (processWeek tz m res) = m"
    by (simp add: succeeded_def processWeek_def split: FetchResult.splits option.splits)
  have 5: "\<exists>rest. payloadOf res = itemsOf res @ rest"
    using bucketsItems_prefix
    by (simp add: payloadOf_def itemsOf_def split: FetchResult.splits option.splits)
  have 6: "loading (loadMonthSchedule tz now fetcher wks days st) = False"
    and 7: "loadingProgress (loadMonthSchedule tz now fetcher wks days st) = 100"
    by (simp_all only: loadMonthSchedule_eq commitRound_loading)
  from 1 2 3 4 5 6 7 show ?thesis by (intro conjI)
qed

text \<open>
  The scenario of the specification: of the six weeks \<open>-1, ..., 4\<close> the requests for \<open>-1\<close>
  and \<open>2\<close> fail and each other week carries one entry. The index holds the four entries of
  the succeeding weeks and \<open>loading\<close> is false.
\<close>

definition weekItem :: "int \<Rightarrow> ScheduleItem" where
  "weekItem offset = exampleItem\<lparr>schedule_id := 100 + offset,
     airing_at := 1736926200 + offset * 604800\<rparr>"

definition partialFetcher :: "int \<Rightarrow> FetchResult" where
  "partialFetcher offset =
     (if offset = - 1 \<or> offset = 2 then FetchError
      else WeekData (Some [(''WEDNESDAY'', Some [Some (weekItem offset)])]))"

theorem partial_failure_tolerated_witness:
  "mset (allEntries (scheduleData
       (loadMonthSchedule utcMinus8 0 partialFetcher [- 1, 0, 1, 2, 3, 4] [] exampleState)))
     = mset (map (stored utcMinus8) [weekItem 0, weekItem 1, weekItem 3, weekItem 4])
   \<and> loading (loadMonthSchedule utcMinus8 0 partialFetcher [- 1, 0, 1, 2, 3, 4] [] exampleState)
     = False"
proof -
  note t = partial_failure_tolerated[of utcMinus8 0 partialFetcher
      "[- 1, 0, 1, 2, 3, 4]" "[]" exampleState]
  have wf: "\<forall>offset \<in> set [- 1, 0, 1, 2, 3, 4]. wellFormedResult (partialFetcher offset)"
    by (simp add: wellFormedResult_def wellFormed_def partialFetcher_def)
  from t[THEN conjunct2, THEN conjunct1] wf
  have "mset (allEntries (scheduleData
       (loadMonthSchedule utcMinus8 0 partialFetcher [- 1, 0, 1, 2, 3, 4] [] exampleState)))
     = mset (map (stored utcMinus8) [weekItem 0, weekItem 1, weekItem 3, weekItem 4])"
    by (simp add: succeeded_def payloadOf_def payloadItems_def partialFetcher_def)
  with t[THEN conjunct2, THEN conjunct2, THEN conjunct2, THEN conjunct2, THEN conjunct2,
      THEN conjunct1]
  show ?thesis by (intro conjI)
qed

text \<open>
  A week that fails part-way. The body of week 0 holds an entry under Monday, a Tuesday
  bucket that is not an array, and an entry under Wednesday. The aggregation throws at
  Tuesday and the \<^verbatim>\<open>catch\<close> block logs the week as failed; the index keeps the Monday entry
  and never gets the Wednesday one. So this failed week contributes an entry, and the index
  does not hold exactly the entries of a succeeding week either.
\<close>

definition brokenWeek :: FetchResult where
  "brokenWeek = WeekData (Some [(''MONDAY'', Some [Some exampleItem]), (''TUESDAY'', None),
     (''WEDNESDAY'', Some [Some (weekItem 0)])])"

theorem failed_week_keeps_entries:
  "snd (processWeek utcMinus8 [] brokenWeek) = True
   \<and> allEntries (scheduleData
         (loadMonthSchedule utcMinus8 0 (\<lambda>offset. brokenWeek) [0] [] exampleState))
       = [exampleItem\<lparr>airing_date := ''2025-01-14''\<rparr>]"
proof -
  have "aggregate utcMinus8 (\<lambda>offset. brokenWeek) [0]
      = [(''2025-01-14'', [exampleItem\<lparr>airing_date := ''2025-01-14''\<rparr>])]"
    using example_key
    by (simp add: aggregate_def processWeek_def brokenWeek_def addItem_def Let_def
        epochToLocalDateKey_def exampleItem_def Map_has_def Map_set_def Map_push_def)
  then show ?thesis
    by (simp add: loadMonthSchedule_scheduleData allEntries_def processWeek_def brokenWeek_def)
qed

text \<open>
  Claim C3, as amended. The aggregation pass does not deduplicate: the index holds one
  entry for every occurrence of an item that the pass reads from the fetched payloads
  (\<open>fetchedItems\<close>: every item of the successfully fetched, well-formed payloads), so a
  \<open>schedule_id\<close> occurs in the index exactly as often as in the payloads, and it is unique
  across the index exactly when it is unique across the fetched payloads.
\<close>

theorem index_ids_as_fetched:
  "mset (map schedule_id (allEntries (scheduleData (loadMonthSchedule tz now fetcher wks days st))))
     = mset (map schedule_id (fetchedItems fetcher wks))
   \<and> (distinct (map schedule_id
          (allEntries (scheduleData (loadMonthSchedule tz now fetcher wks days st))))
        \<longleftrightarrow> distinct (map schedule_id (fetchedItems fetcher wks)))"
proof -
  have "mset (map schedule_id (allEntries (aggregate tz fetcher wks)))
      = image_mset schedule_id (mset (allEntries (aggregate tz fetcher wks)))" by simp
  also have "\<dots> = image_mset schedule_id (mset (map (stored tz) (fetchedItems fetcher wks)))"
    by (simp only: aggregate_allEntries)
  also have "\<dots> = mset (map schedule_id (fetchedItems fetcher wks))"
    by (simp add: stored_def image_mset.compositionality comp_def)
  finally have m: "mset (map schedule_id (allEntries (aggregate tz fetcher wks)))
      = mset (map schedule_id (fetchedItems fetcher wks))" .
  from m have "distinct (map schedule_id (allEntries (aggregate tz fetcher wks)))
      \<longleftrightarrow> distinct (map schedule_id (fetchedItems fetcher wks))"
    by (rule mset_eq_imp_distinct_iff)
  with m show ?thesis by (simp add: loadMonthSchedule_scheduleData)
qed

text \<open>
  Two fetched weeks that both carry the entry with id 42 leave two entries with id 42 in
  the index.
\<close>

theorem duplicate_id_kept_twice:
  "length (filter (\<lambda>e. schedule_id e = 42)
     (allEntries (scheduleData
        (loadMonthSchedule utcMinus8 0 exampleFetcher [0, 1] [] exampleState)))) = 2"
proof -
  have "aggregate utcMinus8 exampleFetcher [0, 1]
      = [(''2025-01-14'', [exampleItem\<lparr>airing_date := ''2025-01-14''\<rparr>,
                            exampleItem\<lparr>airing_date := ''2025-01-14''\<rparr>])]"
    using example_key
    by (simp add: aggregate_def processWeek_def exampleFetcher_def addItem_def Let_def
        epochToLocalDateKey_def exampleItem_def Map_has_def Map_set_def Map_push_def)
  then show ?thesis
    by (simp add: loadMonthSchedule_scheduleData allEntries_def exampleItem_def)
qed

theorem index_ids_as_fetched_witness:
  "size (mset (map schedule_id (allEntries (scheduleData
      (loadMonthSchedule utcMinus8 0 exampleFetcher [0, 1] [] exampleState))))) = 2"
  using index_ids_as_fetched[of utcMinus8 0 exampleFetcher "[0, 1]" "[]" exampleState]
  by (simp add: fetchedItems_def itemsOf_def exampleFetcher_def)

section \<open>Properties of the date key\<close>

lemma digit_cases:
  fixes d :: nat
  assumes "d < 10"
  obtains "d = 0" | "d = 1" | "d = 2" | "d = 3" | "d = 4" | "d = 5" | "d = 6" | "d = 7"
    | "d = 8" | "d = 9"
proof -
  from assms have "d \<in> {0..<10}" by simp
  also have "{0..<10} = {0, 1, 2, 3, 4, 5, 6, 7, 8, 9::nat}" by auto
  finally show thesis using that by auto
qed

lemma digit_char_inj: "a < 10 \<Longrightarrow> b < 10 \<Longrightarrow> digit_char a = digit_char b \<Longrightarrow> a = b"
  by (erule digit_cases; erule digit_cases; simp add: digit_char_def)

lemma digit_char_not_minus: "a < 10 \<Longrightarrow> digit_char a \<noteq> CHR ''-''"
  by (erule digit_cases; simp add: digit_char_def)

lemma string_of_nat_small: "n < 10 \<Longrightarrow> string_of_nat n = [digit_char n]"
  by (subst string_of_nat.simps) simp

lemma string_of_nat_large:
  "10 \<le> n \<Longrightarrow> string_of_nat n = string_of_nat (n div 10) @ [digit_char (n mod 10)]"
  by (subst string_of_nat.simps) simp

lemma string_of_nat_nonempty: "string_of_nat n \<noteq> []"
  by (subst string_of_nat.simps) simp

lemma string_of_nat_length_large: "10 \<le> n \<Longrightarrow> 2 \<le> length (string_of_nat n)"
  using string_of_nat_nonempty[of "n div 10"]
  by (simp add: string_of_nat_large Suc_le_eq)

lemma string_of_nat_inj: "string_of_nat a = string_of_nat b \<Longrightarrow> a = b"
proof (induction a arbitrary: b rule: string_of_nat.induct)
  case (1 a)
  have len: "length (string_of_nat a) = length (string_of_nat b)" using "1.prems" by simp
  show ?case
  proof (cases "a < 10")
    case True
    show ?thesis
    proof (cases "b < 10")
      case b: True
      with True "1.prems" show ?thesis
        by (simp add: string_of_nat_small digit_char_inj)
    next
      case False
      then have "2 \<le> length (string_of_nat b)" by (simp add: string_of_nat_length_large)
      with True len show ?thesis by (simp add: string_of_nat_small)
    qed
  next
    case False
    then have a: "10 \<le> a" by simp
    show ?thesis
    proof (cases "b < 10")
      case True
      have "2 \<le> length (string_of_nat a)" using a by (rule string_of_nat_length_large)
      with True len show ?thesis by (simp add: string_of_nat_small)
    next
      case b: False
      from "1.prems" have "string_of_nat (a div 10) @ [digit_char (a mod 10)]
          = string_of_nat (b div 10) @ [digit_char (b mod 10)]"
        using a b by (simp add: string_of_nat_large)
      then have e: "string_of_nat (a div 10) = string_of_nat (b div 10)"
          "digit_char (a mod 10) = digit_char (b mod 10)" by simp_all
      from "1.IH"[OF False e(1)] have "a div 10 = b div 10" .
      moreover have "a mod 10 = b mod 10" using e(2) by (intro digit_char_inj) simp_all
      ultimately show ?thesis by (metis div_mult_mod_eq)
    qed
  qed
qed

lemma string_of_nat_hd: "hd (string_of_nat n) \<noteq> CHR ''-''"
proof (induction n rule: string_of_nat.induct)
  case (1 n)
  show ?case
  proof (cases "n < 10")
    case True
    then show ?thesis by (simp add: string_of_nat_small digit_char_not_minus)
  next
    case False
    then show ?thesis using "1.IH" string_of_nat_nonempty[of "n div 10"]
      by (simp add: string_of_nat_large)
  qed
qed

lemma toString_inj: "toString a = toString b \<Longrightarrow> a = b"
proof -
  assume e: "toString a = toString b"
  have neg: "False" if "x < 0" "0 \<le> y" "toString x = toString y" for x y :: int
  proof -
    from that have "CHR ''-'' # string_of_nat (nat (- x)) = string_of_nat (nat y)"
      by (simp add: toString_def)
    then have "hd (string_of_nat (nat y)) = CHR ''-''" by (metis list.sel(1))
    then show False using string_of_nat_hd by blast
  qed
  show ?thesis
  proof (cases "a < 0")
    case True
    show ?thesis
    proof (cases "b < 0")
      case b: True
      with True e have "nat (- a) = nat (- b)" by (simp add: toString_def string_of_nat_inj)
      with True b show ?thesis by simp
    next
      case False
      with True e neg[of a b] show ?thesis by simp
    qed
  next
    case False
    show ?thesis
    proof (cases "b < 0")
      case True
      with False e neg[of b a] show ?thesis by simp
    next
      case b: False
      with False e have "nat a = nat b" by (simp add: toString_def string_of_nat_inj)
      with False b show ?thesis by simp
    qed
  qed
qed

lemma pad2:
  assumes "0 \<le> n" "n \<le> 99"
  shows "padStart 2 CHR ''0'' (toString n)
      = [digit_char (nat n div 10), digit_char (nat n mod 10)]"
proof (cases "n < 10")
  case True
  then have "nat n < 10" "nat n div 10 = 0" "nat n mod 10 = nat n" using assms by simp_all
  then show ?thesis using assms
    by (simp add: padStart_def toString_def string_of_nat_small digit_char_def)
next
  case False
  then have "10 \<le> nat n" "nat n div 10 < 10" using assms by simp_all
  then show ?thesis using assms
    by (simp add: padStart_def toString_def string_of_nat_large string_of_nat_small)
qed

lemma two_digits_inj:
  assumes "a \<le> 99" "b \<le> 99"
    and "[digit_char (a div 10), digit_char (a mod 10)] = [digit_char (b div 10), digit_char (b mod 10)]"
  shows "a = (b::nat)"
proof -
  have "a div 10 = b div 10" using assms by (intro digit_char_inj) simp_all
  moreover have "a mod 10 = b mod 10" using assms by (intro digit_char_inj) simp_all
  ultimately show ?thesis by (metis div_mult_mod_eq)
qed

lemma getDate_bounds: "1 \<le> getDate tz d" "getDate tz d \<le> 31"
proof -
  show "1 \<le> getDate tz d" by (simp add: getDate_def DateFromDay_bounds)
  have "getDate tz d \<le> daysInMonth (isLeapYear (YearFromDay (Day (LocalTime tz d))))
      (MonthFromDay (Day (LocalTime tz d)))"
    by (simp add: getDate_def DateFromDay_bounds)
  also have "\<dots> \<le> 31" using daysInMonth_bounds[OF MonthFromDay_bounds] by simp
  finally show "getDate tz d \<le> 31" .
qed

lemma formatLocalDateKey_shape:
  "formatLocalDateKey tz d = toString (getFullYear tz d)
     @ [CHR ''-'', digit_char (nat (getMonth tz d + 1) div 10),
                   digit_char (nat (getMonth tz d + 1) mod 10),
        CHR ''-'', digit_char (nat (getDate tz d) div 10),
                   digit_char (nat (getDate tz d) mod 10)]"
proof -
  have m: "0 \<le> getMonth tz d + 1" "getMonth tz d + 1 \<le> 99"
    using getMonth_bounds[of tz d] by simp_all
  have dd: "0 \<le> getDate tz d" "getDate tz d \<le> 99"
    using getDate_bounds[of tz d] by simp_all
  show ?thesis
    unfolding formatLocalDateKey_def Let_def pad2[OF m] pad2[OF dd] by simp
qed

lemma Day_from_fields:
  assumes "getFullYear tz a = getFullYear tz b" "getMonth tz a = getMonth tz b"
    "getDate tz a = getDate tz b"
  shows "Day (LocalTime tz a) = Day (LocalTime tz b)"
proof -
  have "Day (LocalTime tz a) = MakeDay (getFullYear tz a) (getMonth tz a) (getDate tz a + 0)"
    unfolding getFullYear_def getMonth_def getDate_def MakeDay_fields by simp
  also have "\<dots> = MakeDay (getFullYear tz b) (getMonth tz b) (getDate tz b + 0)"
    by (simp only: assms)
  also have "\<dots> = Day (LocalTime tz b)"
    unfolding getFullYear_def getMonth_def getDate_def MakeDay_fields by simp
  finally show ?thesis .
qed

lemma formatLocalDateKey_fields:
  assumes "formatLocalDateKey tz a = formatLocalDateKey tz b"
  shows "getFullYear tz a = getFullYear tz b \<and> getMonth tz a = getMonth tz b
      \<and> getDate tz a = getDate tz b"
proof -
  from assms have y: "toString (getFullYear tz a) = toString (getFullYear tz b)"
    and m: "[digit_char (nat (getMonth tz a + 1) div 10), digit_char (nat (getMonth tz a + 1) mod 10)]
          = [digit_char (nat (getMonth tz b + 1) div 10), digit_char (nat (getMonth tz b + 1) mod 10)]"
    and d: "[digit_char (nat (getDate tz a) div 10), digit_char (nat (getDate tz a) mod 10)]
          = [digit_char (nat (getDate tz b) div 10), digit_char (nat (getDate tz b) mod 10)]"
    unfolding formatLocalDateKey_shape by simp_all
  have "nat (getMonth tz a + 1) = nat (getMonth tz b + 1)"
    using getMonth_bounds[of tz a] getMonth_bounds[of tz b] by (intro two_digits_inj[OF _ _ m]) simp_all
  then have "getMonth tz a = getMonth tz b"
    using getMonth_bounds[of tz a] getMonth_bounds[of tz b] by simp
  moreover have "nat (getDate tz a) = nat (getDate tz b)"
    using getDate_bounds[of tz a] getDate_bounds[of tz b] by (intro two_digits_inj[OF _ _ d]) simp_all
  then have "getDate tz a = getDate tz b"
    using getDate_bounds[of tz a] getDate_bounds[of tz b] by simp
  ultimately show ?thesis using toString_inj[OF y] by simp
qed

lemma formatLocalDateKey_eq_iff:
  "formatLocalDateKey tz a = formatLocalDateKey tz b
     \<longleftrightarrow> Day (LocalTime tz a) = Day (LocalTime tz b)"
proof
  assume "formatLocalDateKey tz a = formatLocalDateKey tz b"
  from formatLocalDateKey_fields[OF this] show "Day (LocalTime tz a) = Day (LocalTime tz b)"
    by (intro Day_from_fields) simp_all
next
  assume "Day (LocalTime tz a) = Day (LocalTime tz b)"
  then show "formatLocalDateKey tz a = formatLocalDateKey tz b"
    by (simp add: formatLocalDateKey_def getFullYear_def getMonth_def getDate_def)
qed

lemma string_of_nat_four: "1000 \<le> n \<Longrightarrow> n \<le> 9999 \<Longrightarrow> length (string_of_nat n) = 4"
proof -
  assume n: "1000 \<le> n" "n \<le> 9999"
  then have "10 \<le> n" "10 \<le> n div 10" "10 \<le> n div 10 div 10" "n div 10 div 10 div 10 < 10"
    by simp_all
  then show ?thesis
    by (simp add: string_of_nat_large string_of_nat_small)
qed


text \<open>
  Claim C6, as amended. The date key is built from the local year, month and day of the
  date: the year in plain decimal, not padded, then the month and the day zero-padded to two
  digits, joined by hyphens; this is the ten-character \<open>YYYY-MM-DD\<close> for the years 1000 to
  9999. Two time values get the same key exactly when they lie on the same local calendar
  day, that is, when their local year, month and day agree; so no time of day and no offset
  from UTC moves a key to the adjacent day.
\<close>

theorem formatLocalDateKey_local_day:
  "(formatLocalDateKey tz a = formatLocalDateKey tz b
      \<longleftrightarrow> Day (LocalTime tz a) = Day (LocalTime tz b))
   \<and> (formatLocalDateKey tz a = formatLocalDateKey tz b
      \<longleftrightarrow> getFullYear tz a = getFullYear tz b \<and> getMonth tz a = getMonth tz b
          \<and> getDate tz a = getDate tz b)
   \<and> formatLocalDateKey tz a = toString (getFullYear tz a)
       @ [CHR ''-'', digit_char (nat (getMonth tz a + 1) div 10),
                     digit_char (nat (getMonth tz a + 1) mod 10),
          CHR ''-'', digit_char (nat (getDate tz a) div 10),
                     digit_char (nat (getDate tz a) mod 10)]
   \<and> (1000 \<le> getFullYear tz a \<and> getFullYear tz a \<le> 9999
        \<longrightarrow> length (formatLocalDateKey tz a) = 10)"
proof -
  have 1: "formatLocalDateKey tz a = formatLocalDateKey tz b
      \<longleftrightarrow> Day (LocalTime tz a) = Day (LocalTime tz b)"
    by (rule formatLocalDateKey_eq_iff)
  have 2: "formatLocalDateKey tz a = formatLocalDateKey tz b
      \<longleftrightarrow> getFullYear tz a = getFullYear tz b \<and> getMonth tz a = getMonth tz b
          \<and> getDate tz a = getDate tz b"
    using formatLocalDateKey_fields[of tz a b] Day_from_fields[of tz a b] 1 by blast
  have 4: "1000 \<le> getFullYear tz a \<and> getFullYear tz a \<le> 9999
        \<longrightarrow> length (formatLocalDateKey tz a) = 10"
  proof
    assume y: "1000 \<le> getFullYear tz a \<and> getFullYear tz a \<le> 9999"
    then have "1000 \<le> nat (getFullYear tz a)" "nat (getFullYear tz a) \<le> 9999" by linarith+
    then have "length (string_of_nat (nat (getFullYear tz a))) = 4" by (rule string_of_nat_four)
    with y have "length (toString (getFullYear tz a)) = 4"
      by (simp add: toString_def)
    then show "length (formatLocalDateKey tz a) = 10"
      by (simp add: formatLocalDateKey_shape)
  qed
  from 1 2 formatLocalDateKey_shape[of tz a] 4 show ?thesis by (intro conjI)
qed

theorem formatLocalDateKey_local_day_witness:
  "formatLocalDateKey (- 28800000) 1736926200000
     = formatLocalDateKey (- 28800000) (newDate (- 28800000) 2025 0 14)
   \<and> length (formatLocalDateKey (- 28800000) 1736926200000) = 10"
proof -
  have d: "Day (LocalTime (- 28800000) 1736926200000)
      = Day (LocalTime (- 28800000) (newDate (- 28800000) 2025 0 14))"
    by code_simp
  have y: "getFullYear (- 28800000) 1736926200000 = 2025" by code_simp
  note t = formatLocalDateKey_local_day[of "- 28800000" 1736926200000
      "newDate (- 28800000) 2025 0 14"]
  from t[THEN conjunct1] d
  have "formatLocalDateKey (- 28800000) 1736926200000
     = formatLocalDateKey (- 28800000) (newDate (- 28800000) 2025 0 14)" by simp
  moreover from t[THEN conjunct2, THEN conjunct2, THEN conjunct2] y
  have "length (formatLocalDateKey (- 28800000) 1736926200000) = 10" by simp
  ultimately show ?thesis by (intro conjI)
qed

text \<open>
  The year is not padded: 1 January of the year 999 gets the nine-character key
  \<open>999-01-01\<close>, not the zero-padded \<open>0999-01-01\<close>.
\<close>

theorem formatLocalDateKey_year_unpadded:
  "formatLocalDateKey 0 (newDate 0 999 0 1) = ''999-01-01''
   \<and> formatLocalDateKey 0 (newDate 0 999 0 1) \<noteq> ''0999-01-01''
   \<and> length (formatLocalDateKey 0 (newDate 0 999 0 1)) = 9"
  by code_simp

section \<open>The default-selection policy\<close>






















definition displaying :: "Date \<Rightarrow> ComponentState" where
  "displaying d = \<lparr>scheduleData = [], loading = False, loadingProgress = 0, currentDate = d,
     selectedDate = None, selectedAnime = []\<rparr>"







section \<open>Two fetch rounds in flight\<close>

text \<open>
  \<open>loadMonthSchedule\<close> is an \<^verbatim>\<open>async\<close> function: it runs until its first \<^verbatim>\<open>await\<close>
  (\<open>startRound\<close>) and is resumed once per week when that week's response has arrived
  (\<open>stepRound\<close>); the resumption for the last week also publishes the index. The awaits in
  between (the JSON parse, the 100 ms pause) touch no state and are not separate steps.
  Each call has its own \<open>Round\<close>: its local map and the values its closure captured.

  \<open>navigateMonth\<close> is the handler of the Previous and Next buttons (\<open>setMonth\<close> is
  \<^verbatim>\<open>Date.prototype.setMonth\<close>). The buttons carry \<^verbatim>\<open>disabled={loading}\<close>: a click reaches the
  handler only when the render on the screen was made with \<open>loading\<close> false. \<open>clickNavigate\<close>
  is such a click, \<open>disabled\<close> being the value of \<open>loading\<close> in the render on the screen. This
  is the component's only protection against two rounds in flight: nothing in
  \<open>loadMonthSchedule\<close> compares a round with the latest one before it publishes.

  A round is started by an effect that runs after the render in which the month changed,
  and only the render after that shows \<open>loading\<close> true. \<open>doubleClick\<close> is the scenario of a
  second click in between: a click changes the month, the new month is rendered and its
  effect starts round A; a second click lands while the screen still shows that render, so
  it passes the \<^verbatim>\<open>disabled\<close> check on the value of \<open>loading\<close> before round A; the month
  changes again, round B starts, and the responses of both rounds arrive in the order
  \<open>sched\<close>. \<open>wksA\<close>, \<open>daysA\<close> and \<open>wksB\<close>, \<open>daysB\<close> are the week offsets and the grid of the
  two renders.
\<close>

definition setMonth :: "int \<Rightarrow> Date \<Rightarrow> int \<Rightarrow> Date" where
  "setMonth tz d month =
     (let t = LocalTime tz d
      in UTC tz (MakeDay (YearFromDay (Day t)) month (DateFromDay (Day t)) * msPerDay
                 + TimeWithinDay t))"

definition navigateMonth :: "int \<Rightarrow> int \<Rightarrow> ComponentState \<Rightarrow> ComponentState" where
  "navigateMonth tz direction st =
     (let newDate = setMonth tz (currentDate st) (getMonth tz (currentDate st) + direction)
      in st\<lparr>currentDate := newDate, selectedDate := None, selectedAnime := []\<rparr>)"

definition clickNavigate :: "int \<Rightarrow> int \<Rightarrow> bool \<Rightarrow> ComponentState \<Rightarrow> ComponentState" where
  "clickNavigate tz direction disabled st =
     (if disabled then st else navigateMonth tz direction st)"

datatype RoundId = RoundA | RoundB

fun interleave ::
  "int \<Rightarrow> Date \<Rightarrow> (int \<Rightarrow> FetchResult) \<Rightarrow> (int \<Rightarrow> FetchResult) \<Rightarrow> RoundId list
     \<Rightarrow> ComponentState \<times> Round \<times> Round \<Rightarrow> ComponentState \<times> Round \<times> Round" where
  "interleave tz now fetchA fetchB [] s = s"
| "interleave tz now fetchA fetchB (RoundA # sched) (st, a, b) =
     (let sa = stepRound tz now fetchA (st, a)
      in interleave tz now fetchA fetchB sched (fst sa, snd sa, b))"
| "interleave tz now fetchA fetchB (RoundB # sched) (st, a, b) =
     (let sb = stepRound tz now fetchB (st, b)
      in interleave tz now fetchA fetchB sched (fst sb, a, snd sb))"

definition doubleClick ::
  "int \<Rightarrow> Date \<Rightarrow> (int \<Rightarrow> FetchResult) \<Rightarrow> int list \<Rightarrow> Date list \<Rightarrow> int list \<Rightarrow> Date list
     \<Rightarrow> int \<Rightarrow> RoundId list \<Rightarrow> ComponentState \<Rightarrow> ComponentState \<times> Round \<times> Round" where
  "doubleClick tz now fetcher wksA daysA wksB daysB direction sched st =
     (let st1 = clickNavigate tz direction (loading st) st;
          sa = startRound tz now wksA daysA st1;
          st2 = clickNavigate tz direction (loading st1) (fst sa);
          sb = startRound tz now wksB daysB st2
      in interleave tz now fetcher fetcher sched (fst sb, snd sa, snd sb))"

lemma interleave_append:
  "interleave tz now fa fb (xs @ ys) s = interleave tz now fa fb ys (interleave tz now fa fb xs s)"
proof (induction xs arbitrary: s)
  case Nil
  show ?case by simp
next
  case (Cons x xs)
  obtain st a b where s: "s = (st, a, b)" by (cases s)
  show ?case unfolding s by (cases x) (simp_all add: Let_def Cons.IH)
qed

lemma interleave_rounds:
  assumes "i + count_list sched RoundA \<le> length wksA" "j + count_list sched RoundB \<le> length wksB"
  shows "snd (interleave tz now fa fb sched
           (st, roundAfter tz fa wksA daysA stA i, roundAfter tz fb wksB daysB stB j))
       = (roundAfter tz fa wksA daysA stA (i + count_list sched RoundA),
          roundAfter tz fb wksB daysB stB (j + count_list sched RoundB))"
  using assms
proof (induction sched arbitrary: st i j)
  case Nil
  show ?case by simp
next
  case (Cons x sched)
  show ?case
  proof (cases x)
    case RoundA
    with Cons.prems have i: "i < length wksA" by simp
    have "snd (stepRound tz now fa (st, roundAfter tz fa wksA daysA stA i))
        = roundAfter tz fa wksA daysA stA (Suc i)"
      using i by (rule stepRound_roundAfter)
    then show ?thesis using RoundA Cons.prems
        Cons.IH[of "Suc i" j "fst (stepRound tz now fa (st, roundAfter tz fa wksA daysA stA i))"]
      by (simp add: Let_def)
  next
    case RoundB
    with Cons.prems have j: "j < length wksB" by simp
    have "snd (stepRound tz now fb (st, roundAfter tz fb wksB daysB stB j))
        = roundAfter tz fb wksB daysB stB (Suc j)"
      using j by (rule stepRound_roundAfter)
    then show ?thesis using RoundB Cons.prems
        Cons.IH[of i "Suc j" "fst (stepRound tz now fb (st, roundAfter tz fb wksB daysB stB j))"]
      by (simp add: Let_def)
  qed
qed

lemma last_commit_wins:
  assumes sched: "sched \<noteq> []"
    and ca: "i + count_list sched RoundA = length wksA"
    and cb: "j + count_list sched RoundB = length wksB"
  shows "scheduleData (fst (interleave tz now fa fb sched
           (st, roundAfter tz fa wksA daysA stA i, roundAfter tz fb wksB daysB stB j)))
       = (if last sched = RoundA then aggregate tz fa wksA else aggregate tz fb wksB)"
proof -
  obtain xs x where sx: "sched = xs @ [x]" using sched by (metis rev_exhaust)
  define s where "s = interleave tz now fa fb xs
      (st, roundAfter tz fa wksA daysA stA i, roundAfter tz fb wksB daysB stB j)"
  have run: "interleave tz now fa fb sched
      (st, roundAfter tz fa wksA daysA stA i, roundAfter tz fb wksB daysB stB j)
      = interleave tz now fa fb [x] s"
    unfolding sx s_def by (rule interleave_append)
  have le: "i + count_list xs RoundA \<le> length wksA" "j + count_list xs RoundB \<le> length wksB"
    using ca cb unfolding sx by simp_all
  from interleave_rounds[OF le]
  have rounds: "snd s = (roundAfter tz fa wksA daysA stA (i + count_list xs RoundA),
        roundAfter tz fb wksB daysB stB (j + count_list xs RoundB))"
    unfolding s_def .
  then obtain st' where s: "s = (st', roundAfter tz fa wksA daysA stA (i + count_list xs RoundA),
        roundAfter tz fb wksB daysB stB (j + count_list xs RoundB))"
    by (cases s) simp
  show ?thesis
  proof (cases x)
    case RoundA
    then have e: "Suc (i + count_list xs RoundA) = length wksA" using ca unfolding sx by simp
    have "fst (stepRound tz now fa (st', roundAfter tz fa wksA daysA stA (i + count_list xs RoundA)))
        = commitRound tz now (roundAfter tz fa wksA daysA stA (Suc (i + count_list xs RoundA))) st'"
      using e by (rule stepRound_final)
    then show ?thesis unfolding run s using RoundA e
      by (simp add: Let_def sx commitRound_scheduleData roundAfter_def)
  next
    case RoundB
    then have e: "Suc (j + count_list xs RoundB) = length wksB" using cb unfolding sx by simp
    have "fst (stepRound tz now fb (st', roundAfter tz fb wksB daysB stB (j + count_list xs RoundB)))
        = commitRound tz now (roundAfter tz fb wksB daysB stB (Suc (j + count_list xs RoundB))) st'"
      using e by (rule stepRound_final)
    then show ?thesis unfolding run s using RoundB e
      by (simp add: Let_def sx commitRound_scheduleData roundAfter_def)
  qed
qed

lemma startRound_fresh:
  "wks \<noteq> [] \<Longrightarrow> snd (startRound tz now wks days st) = roundAfter tz fetcher wks days st 0"
  by (simp add: startRound_def Let_def roundAfter_def aggregate_def)

lemma stepRound_currentDate: "currentDate (fst (stepRound tz now fetcher (st, r))) = currentDate st"
  by (simp add: stepRound_def commitRound_def Let_def split: option.splits prod.splits)

lemma startRound_currentDate: "currentDate (fst (startRound tz now wks days st)) = currentDate st"
  by (simp add: startRound_def commitRound_def Let_def split: option.splits prod.splits)

lemma interleave_currentDate:
  "currentDate (fst (interleave tz now fa fb sched (st, a, b))) = currentDate st"
proof (induction sched arbitrary: st a b)
  case Nil
  show ?case by simp
next
  case (Cons x sched)
  show ?case by (cases x) (simp_all add: Let_def Cons.IH stepRound_currentDate)
qed

lemma doubleClick_eq:
  assumes "wksA \<noteq> []" and "wksB \<noteq> []"
  shows "doubleClick tz now fetcher wksA daysA wksB daysB direction sched st
     = interleave tz now fetcher fetcher sched
         (fst (startRound tz now wksB daysB
            (clickNavigate tz direction (loading (clickNavigate tz direction (loading st) st))
               (fst (startRound tz now wksA daysA (clickNavigate tz direction (loading st) st))))),
          roundAfter tz fetcher wksA daysA (clickNavigate tz direction (loading st) st) 0,
          roundAfter tz fetcher wksB daysB
            (clickNavigate tz direction (loading (clickNavigate tz direction (loading st) st))
               (fst (startRound tz now wksA daysA (clickNavigate tz direction (loading st) st)))) 0)"
  unfolding doubleClick_def Let_def
    startRound_fresh[OF assms(1), of tz now daysA _ fetcher]
    startRound_fresh[OF assms(2), of tz now daysB _ fetcher] ..

lemma doubleClick_scheduleData:
  assumes "wksA \<noteq> []" and "wksB \<noteq> []"
    and "count_list sched RoundA = length wksA"
    and "count_list sched RoundB = length wksB"
  shows "scheduleData (fst (doubleClick tz now fetcher wksA daysA wksB daysB direction sched st))
       = (if last sched = RoundA then aggregate tz fetcher wksA else aggregate tz fetcher wksB)"
proof -
  have ne: "sched \<noteq> []" using assms(2,4) by auto
  have ca: "0 + count_list sched RoundA = length wksA" using assms(3) by simp
  have cb: "0 + count_list sched RoundB = length wksB" using assms(4) by simp
  show ?thesis unfolding doubleClick_eq[OF assms(1,2)] by (rule last_commit_wins[OF ne ca cb])
qed

lemma doubleClick_currentDate:
  assumes "wksA \<noteq> []" and "wksB \<noteq> []" and "\<not> loading st"
  shows "currentDate (fst (doubleClick tz now fetcher wksA daysA wksB daysB direction sched st))
       = currentDate (navigateMonth tz direction (navigateMonth tz direction st))"
proof -
  have l: "\<not> loading (navigateMonth tz direction st)"
    using assms(3) by (simp add: navigateMonth_def Let_def)
  have "currentDate (navigateMonth tz direction
          (fst (startRound tz now wksA daysA (navigateMonth tz direction st))))
      = currentDate (navigateMonth tz direction (navigateMonth tz direction st))"
    using assms(1) by (simp add: navigateMonth_def startRound_def Let_def)
  then show ?thesis
    unfolding doubleClick_eq[OF assms(1,2)] interleave_currentDate startRound_currentDate
    using assms(3) l by (simp add: clickNavigate_def)
qed

text \<open>
  While the render on the screen shows \<open>loading\<close> true, a click on a month button does
  nothing.
\<close>

lemma clickNavigate_disabled: "clickNavigate tz direction True st = st"
  by (simp add: clickNavigate_def)

text \<open>
  The concrete race. Today is 10 March 2025 and March is displayed, with no load in
  flight. A click on Next displays April and round A asks for the weeks 2..7; a second
  click on Next, before the render that disables the buttons, displays May and round B asks
  for the weeks 6..11. The server has one episode on 15 April (week 5) and one on 20 May
  (week 10).
\<close>

definition aprilItem :: ScheduleItem where
  "aprilItem = \<lparr>schedule_id = 8, airing_at = 1744718400, episode = 1, anime_id = 4,
     title = ''April'', cover_image = '''', status = ''RELEASING'', total_episodes = None,
     score = 70, airs_in_human = '''', airing_status = upcoming, airing_time = ''12:00'',
     airing_date = ''2025-04-15''\<rparr>"

definition mayItem :: ScheduleItem where
  "mayItem = \<lparr>schedule_id = 9, airing_at = 1747742400, episode = 1, anime_id = 5,
     title = ''May'', cover_image = '''', status = ''RELEASING'', total_episodes = None,
     score = 60, airs_in_human = '''', airing_status = upcoming, airing_time = ''12:00'',
     airing_date = ''2025-05-20''\<rparr>"

definition raceFetcher :: "int \<Rightarrow> FetchResult" where
  "raceFetcher offset =
     (if offset = 5 then WeekData (Some [(''TUESDAY'', Some [Some aprilItem])])
      else if offset = 10 then WeekData (Some [(''TUESDAY'', Some [Some mayItem])])
      else WeekData (Some []))"

lemma race_weeks:
  "weeksToFetch 0 (newDate 0 2025 2 10) (calendarDays 0 (newDate 0 2025 3 10))
     = Some [2, 3, 4, 5, 6, 7]"
  "weeksToFetch 0 (newDate 0 2025 2 10) (calendarDays 0 (newDate 0 2025 4 10))
     = Some [6, 7, 8, 9, 10, 11]"
  by code_simp+

lemma race_navigation:
  "currentDate (navigateMonth 0 1 (displaying (newDate 0 2025 2 10))) = newDate 0 2025 3 10"
  "currentDate (navigateMonth 0 1 (navigateMonth 0 1 (displaying (newDate 0 2025 2 10))))
     = newDate 0 2025 4 10"
  by code_simp+

lemma race_keys:
  "epochToLocalDateKey 0 1744718400 = ''2025-04-15''"
  "epochToLocalDateKey 0 1747742400 = ''2025-05-20''"
  by code_simp+

lemma race_indexes:
  "aggregate 0 raceFetcher [2, 3, 4, 5, 6, 7] = [(''2025-04-15'', [aprilItem])]"
  "aggregate 0 raceFetcher [6, 7, 8, 9, 10, 11] = [(''2025-05-20'', [mayItem])]"
  using race_keys
  by (simp_all add: aggregate_def processWeek_def raceFetcher_def addItem_def Let_def
      epochToLocalDateKey_def aprilItem_def mayItem_def Map_has_def Map_set_def Map_push_def)

text \<open>
  Claim C2 asks that the results of a superseded round are never committed: whatever the
  order of the responses, the index exposed in the end is the one of the newer round B.
  The component does not behave so. In the race above, with the six responses of round B
  arriving before the six of round A, May is displayed in the end but the index exposed is
  the one round A built for April; round A's late results have overwritten round B's.
\<close>

theorem stale_round_overwrites:
  "loading (displaying (newDate 0 2025 2 10)) = False
   \<and> currentDate (clickNavigate 0 1 (loading (displaying (newDate 0 2025 2 10)))
        (displaying (newDate 0 2025 2 10))) = newDate 0 2025 3 10
   \<and> loading (clickNavigate 0 1 (loading (displaying (newDate 0 2025 2 10)))
        (displaying (newDate 0 2025 2 10))) = False
   \<and> weeksToFetch 0 (newDate 0 2025 2 10) (calendarDays 0 (newDate 0 2025 3 10))
     = Some [2, 3, 4, 5, 6, 7]
   \<and> weeksToFetch 0 (newDate 0 2025 2 10) (calendarDays 0 (newDate 0 2025 4 10))
     = Some [6, 7, 8, 9, 10, 11]
   \<and> currentDate (fst (doubleClick 0 (newDate 0 2025 2 10) raceFetcher
       [2, 3, 4, 5, 6, 7] (calendarDays 0 (newDate 0 2025 3 10))
       [6, 7, 8, 9, 10, 11] (calendarDays 0 (newDate 0 2025 4 10)) 1
       [RoundB, RoundB, RoundB, RoundB, RoundB, RoundB,
        RoundA, RoundA, RoundA, RoundA, RoundA, RoundA]
       (displaying (newDate 0 2025 2 10))))
     = newDate 0 2025 4 10
   \<and> scheduleData (fst (doubleClick 0 (newDate 0 2025 2 10) raceFetcher
       [2, 3, 4, 5, 6, 7] (calendarDays 0 (newDate 0 2025 3 10))
       [6, 7, 8, 9, 10, 11] (calendarDays 0 (newDate 0 2025 4 10)) 1
       [RoundB, RoundB, RoundB, RoundB, RoundB, RoundB,
        RoundA, RoundA, RoundA, RoundA, RoundA, RoundA]
       (displaying (newDate 0 2025 2 10))))
     = [(''2025-04-15'', [aprilItem])]
   \<and> aggregate 0 raceFetcher [6, 7, 8, 9, 10, 11] = [(''2025-05-20'', [mayItem])]"
proof -
  have l: "loading (displaying (newDate 0 2025 2 10)) = False" by (simp add: displaying_def)
  have c: "clickNavigate 0 1 (loading (displaying (newDate 0 2025 2 10)))
      (displaying (newDate 0 2025 2 10)) = navigateMonth 0 1 (displaying (newDate 0 2025 2 10))"
    by (simp add: clickNavigate_def l)
  have l1: "loading (navigateMonth 0 1 (displaying (newDate 0 2025 2 10))) = False"
    by (simp add: navigateMonth_def Let_def displaying_def)
  have d: "currentDate (fst (doubleClick 0 (newDate 0 2025 2 10) raceFetcher
       [2, 3, 4, 5, 6, 7] (calendarDays 0 (newDate 0 2025 3 10))
       [6, 7, 8, 9, 10, 11] (calendarDays 0 (newDate 0 2025 4 10)) 1
       [RoundB, RoundB, RoundB, RoundB, RoundB, RoundB,
        RoundA, RoundA, RoundA, RoundA, RoundA, RoundA]
       (displaying (newDate 0 2025 2 10))))
     = newDate 0 2025 4 10"
    by (subst doubleClick_currentDate) (simp_all add: l race_navigation)
  have s: "scheduleData (fst (doubleClick 0 (newDate 0 2025 2 10) raceFetcher
       [2, 3, 4, 5, 6, 7] (calendarDays 0 (newDate 0 2025 3 10))
       [6, 7, 8, 9, 10, 11] (calendarDays 0 (newDate 0 2025 4 10)) 1
       [RoundB, RoundB, RoundB, RoundB, RoundB, RoundB,
        RoundA, RoundA, RoundA, RoundA, RoundA, RoundA]
       (displaying (newDate 0 2025 2 10))))
     = [(''2025-04-15'', [aprilItem])]"
    by (subst doubleClick_scheduleData) (simp_all add: race_indexes)
  from l c l1 race_navigation(1) race_weeks d s race_indexes(2) show ?thesis
    by (intro conjI) simp_all
qed

end
